theory Spec2Isabelle
  imports Main
begin

chapter \<open>SoftGate console: invocation tracking and draft reconciliation\<close>

text \<open>
  A shallow embedding of the console page component (its \<open>handleRun\<close>, \<open>clearPoll\<close>,
  \<open>normalizeStatus\<close> and \<open>handleSave\<close> handlers) and of the function store
  (\<open>upsertFunction\<close>, \<open>removeFunction\<close>, \<open>setSelected\<close>).

  The page is event driven: a handler runs to completion, and every continuation
  (the \<open>then\<close>/\<open>catch\<close> of a request, the callback of a timer) is a later event. The model
  keeps the component's React state and refs in one record, together with the part of
  the browser the handlers talk to: the table of active timers and the requests that
  are in flight. Each handler and each continuation is a function from state to state.
\<close>

section \<open>Strings\<close>

text \<open>
  JavaScript strings are modelled as \<open>string\<close>, read as UTF-8 bytes. Every keyword the
  code searches for is ASCII, so \<open>toLowerCase\<close> is given on the ASCII letters and
  carries every other byte unchanged.
\<close>

definition toLowerCase_char :: "char \<Rightarrow> char" where
  "toLowerCase_char c =
     (let n = (of_char c :: nat) in if 65 \<le> n \<and> n \<le> 90 then char_of (n + 32) else c)"

definition toLowerCase :: "string \<Rightarrow> string" where
  "toLowerCase s = map toLowerCase_char s"

fun startsWith :: "string \<Rightarrow> string \<Rightarrow> bool" where
  "startsWith s [] = True"
| "startsWith [] (k # ks) = False"
| "startsWith (c # cs) (k # ks) = (c = k \<and> startsWith cs ks)"

text \<open>\<open>s.includes(k)\<close>: \<open>k\<close> occurs in \<open>s\<close> as a contiguous substring.\<close>

fun str_includes :: "string \<Rightarrow> string \<Rightarrow> bool" where
  "str_includes [] k = (k = [])"
| "str_includes (c # cs) k = (startsWith (c # cs) k \<or> str_includes cs k)"

text \<open>
  Decimal rendering of an integer inside a template literal. JavaScript prints an integer
  this way below \<open>10^21\<close> in absolute value; from there on it prints exponent form, which
  is left out here (ids of that size are not exact numbers either).
\<close>

definition digit_char :: "nat \<Rightarrow> char" where
  "digit_char d = char_of (48 + d)"

fun show_nat :: "nat \<Rightarrow> string" where
  "show_nat n = (if n < 10 then [digit_char n] else show_nat (n div 10) @ [digit_char (n mod 10)])"

declare show_nat.simps [simp del]

definition show_int :: "int \<Rightarrow> string" where
  "show_int i = (if i < 0 then ''-'' @ show_nat (nat (- i)) else show_nat (nat i))"

section \<open>Message literals\<close>

text \<open>
  The user-facing messages of the page are Korean. Each constant below is the UTF-8
  byte sequence of the source literal.
\<close>

text \<open>\<open>msg_select_function\<close>: the source literal reads "Select a function." in English.\<close>

definition msg_select_function :: string where
  "msg_select_function = [CHR 0xED, CHR 0x95, CHR 0xA8, CHR 0xEC, CHR 0x88, CHR 0x98, CHR 0xEB, CHR 0xA5, CHR 0xBC] @ '' '' @ [CHR 0xEC, CHR 0x84, CHR 0xA0, CHR 0xED, CHR 0x83, CHR 0x9D, CHR 0xED, CHR 0x95, CHR 0x98, CHR 0xEC, CHR 0x84, CHR 0xB8, CHR 0xEC, CHR 0x9A, CHR 0x94] @ ''.''"

text \<open>\<open>msg_save_before_run\<close>: the source literal reads "It can be run after saving." in English.\<close>

definition msg_save_before_run :: string where
  "msg_save_before_run = [CHR 0xEC, CHR 0xA0, CHR 0x80, CHR 0xEC, CHR 0x9E, CHR 0xA5] @ '' '' @ [CHR 0xED, CHR 0x9B, CHR 0x84] @ '' '' @ [CHR 0xEC, CHR 0x8B, CHR 0xA4, CHR 0xED, CHR 0x96, CHR 0x89, CHR 0xED, CHR 0x95, CHR 0xA0] @ '' '' @ [CHR 0xEC, CHR 0x88, CHR 0x98] @ '' '' @ [CHR 0xEC, CHR 0x9E, CHR 0x88, CHR 0xEC, CHR 0x8A, CHR 0xB5, CHR 0xEB, CHR 0x8B, CHR 0x88, CHR 0xEB, CHR 0x8B, CHR 0xA4] @ ''.''"

text \<open>\<open>msg_invalid_json\<close>: the source literal reads "Not a valid JSON format." in English.\<close>

definition msg_invalid_json :: string where
  "msg_invalid_json = [CHR 0xEC, CHR 0x9C, CHR 0xA0, CHR 0xED, CHR 0x9A, CHR 0xA8, CHR 0xED, CHR 0x95, CHR 0x9C] @ '' JSON '' @ [CHR 0xED, CHR 0x98, CHR 0x95, CHR 0xEC, CHR 0x8B, CHR 0x9D, CHR 0xEC, CHR 0x9D, CHR 0xB4] @ '' '' @ [CHR 0xEC, CHR 0x95, CHR 0x84, CHR 0xEB, CHR 0x8B, CHR 0x99, CHR 0xEB, CHR 0x8B, CHR 0x88, CHR 0xEB, CHR 0x8B, CHR 0xA4] @ ''.''"

text \<open>\<open>msg_sending\<close>: the source literal reads "Sending the run request..." in English.\<close>

definition msg_sending :: string where
  "msg_sending = [CHR 0xEC, CHR 0x8B, CHR 0xA4, CHR 0xED, CHR 0x96, CHR 0x89] @ '' '' @ [CHR 0xEC, CHR 0x9A, CHR 0x94, CHR 0xEC, CHR 0xB2, CHR 0xAD] @ '' '' @ [CHR 0xEC, CHR 0xA0, CHR 0x84, CHR 0xEC, CHR 0x86, CHR 0xA1] @ '' '' @ [CHR 0xEC, CHR 0xA4, CHR 0x91] @ ''...''"

text \<open>\<open>msg_run_timeout\<close>: the source literal reads "Run time exceeded." in English.\<close>

definition msg_run_timeout :: string where
  "msg_run_timeout = [CHR 0xEC, CHR 0x8B, CHR 0xA4, CHR 0xED, CHR 0x96, CHR 0x89] @ '' '' @ [CHR 0xEC, CHR 0x8B, CHR 0x9C, CHR 0xEA, CHR 0xB0, CHR 0x84] @ '' '' @ [CHR 0xEC, CHR 0xB4, CHR 0x88, CHR 0xEA, CHR 0xB3, CHR 0xBC]"

text \<open>\<open>log_run_timeout\<close>: the source literal reads "[Error] Run time exceeded" in English.\<close>

definition log_run_timeout :: string where
  "log_run_timeout = ''[Error] '' @ [CHR 0xEC, CHR 0x8B, CHR 0xA4, CHR 0xED, CHR 0x96, CHR 0x89] @ '' '' @ [CHR 0xEC, CHR 0x8B, CHR 0x9C, CHR 0xEA, CHR 0xB0, CHR 0x84] @ '' '' @ [CHR 0xEC, CHR 0xB4, CHR 0x88, CHR 0xEA, CHR 0xB3, CHR 0xBC]"

text \<open>\<open>log_missing_invocation_id\<close>: the source literal reads "[Error] invocation_id is not in the response." in English.\<close>

definition log_missing_invocation_id :: string where
  "log_missing_invocation_id = ''[Error] invocation_id'' @ [CHR 0xEA, CHR 0xB0, CHR 0x80] @ '' '' @ [CHR 0xEC, CHR 0x9D, CHR 0x91, CHR 0xEB, CHR 0x8B, CHR 0xB5, CHR 0xEC, CHR 0x97, CHR 0x90] @ '' '' @ [CHR 0xEC, CHR 0x97, CHR 0x86, CHR 0xEC, CHR 0x8A, CHR 0xB5, CHR 0xEB, CHR 0x8B, CHR 0x88, CHR 0xEB, CHR 0x8B, CHR 0xA4] @ ''.''"

text \<open>\<open>msg_missing_invocation_id\<close>: the source literal reads "invocation_id missing" in English.\<close>

definition msg_missing_invocation_id :: string where
  "msg_missing_invocation_id = ''invocation_id '' @ [CHR 0xEB, CHR 0x88, CHR 0x84, CHR 0xEB, CHR 0x9D, CHR 0xBD]"

text \<open>\<open>msg_poll_timeout\<close>: the source literal reads "Polling timeout" in English.\<close>

definition msg_poll_timeout :: string where
  "msg_poll_timeout = [CHR 0xED, CHR 0x8F, CHR 0xB4, CHR 0xEB, CHR 0xA7, CHR 0x81] @ '' '' @ [CHR 0xED, CHR 0x83, CHR 0x80, CHR 0xEC, CHR 0x9E, CHR 0x84, CHR 0xEC, CHR 0x95, CHR 0x84, CHR 0xEC, CHR 0x9B, CHR 0x83]"

text \<open>\<open>log_poll_timeout\<close>: the source literal reads "[Error] Polling timeout" in English.\<close>

definition log_poll_timeout :: string where
  "log_poll_timeout = ''[Error] '' @ [CHR 0xED, CHR 0x8F, CHR 0xB4, CHR 0xEB, CHR 0xA7, CHR 0x81] @ '' '' @ [CHR 0xED, CHR 0x83, CHR 0x80, CHR 0xEC, CHR 0x9E, CHR 0x84, CHR 0xEC, CHR 0x95, CHR 0x84, CHR 0xEC, CHR 0x9B, CHR 0x83]"

text \<open>\<open>msg_stuck\<close>: the source literal reads "Waiting time exceeded without a status change" in English.\<close>

definition msg_stuck :: string where
  "msg_stuck = [CHR 0xEC, CHR 0x83, CHR 0x81, CHR 0xED, CHR 0x83, CHR 0x9C] @ '' '' @ [CHR 0xEB, CHR 0xB3, CHR 0x80, CHR 0xED, CHR 0x99, CHR 0x94] @ '' '' @ [CHR 0xEC, CHR 0x97, CHR 0x86, CHR 0xEC, CHR 0x9D, CHR 0xB4] @ '' '' @ [CHR 0xEB, CHR 0x8C, CHR 0x80, CHR 0xEA, CHR 0xB8, CHR 0xB0] @ '' '' @ [CHR 0xEC, CHR 0x8B, CHR 0x9C, CHR 0xEA, CHR 0xB0, CHR 0x84] @ '' '' @ [CHR 0xEC, CHR 0xB4, CHR 0x88, CHR 0xEA, CHR 0xB3, CHR 0xBC]"

text \<open>\<open>log_stuck\<close>: the source literal reads "[Error] Stopped because the status did not change" in English.\<close>

definition log_stuck :: string where
  "log_stuck = ''[Error] '' @ [CHR 0xEC, CHR 0x83, CHR 0x81, CHR 0xED, CHR 0x83, CHR 0x9C] @ '' '' @ [CHR 0xEB, CHR 0xB3, CHR 0x80, CHR 0xED, CHR 0x99, CHR 0x94] @ '' '' @ [CHR 0xEC, CHR 0x97, CHR 0x86, CHR 0xEC, CHR 0x9D, CHR 0x8C, CHR 0xEC, CHR 0x9C, CHR 0xBC, CHR 0xEB, CHR 0xA1, CHR 0x9C] @ '' '' @ [CHR 0xEC, CHR 0xA4, CHR 0x91, CHR 0xEB, CHR 0x8B, CHR 0xA8]"

text \<open>\<open>msg_run_done\<close>: the source literal reads "Run complete" in English.\<close>

definition msg_run_done :: string where
  "msg_run_done = [CHR 0xEC, CHR 0x8B, CHR 0xA4, CHR 0xED, CHR 0x96, CHR 0x89] @ '' '' @ [CHR 0xEC, CHR 0x99, CHR 0x84, CHR 0xEB, CHR 0xA3, CHR 0x8C]"

text \<open>\<open>msg_run_failed\<close>: the source literal reads "Run failed" in English.\<close>

definition msg_run_failed :: string where
  "msg_run_failed = [CHR 0xEC, CHR 0x8B, CHR 0xA4, CHR 0xED, CHR 0x96, CHR 0x89] @ '' '' @ [CHR 0xEC, CHR 0x8B, CHR 0xA4, CHR 0xED, CHR 0x8C, CHR 0xA8]"

text \<open>\<open>msg_poll_failed_prefix\<close>: the source literal reads "Polling failed: " in English.\<close>

definition msg_poll_failed_prefix :: string where
  "msg_poll_failed_prefix = [CHR 0xED, CHR 0x8F, CHR 0xB4, CHR 0xEB, CHR 0xA7, CHR 0x81] @ '' '' @ [CHR 0xEC, CHR 0x8B, CHR 0xA4, CHR 0xED, CHR 0x8C, CHR 0xA8] @ '': ''"

text \<open>\<open>msg_invoke_failed_prefix\<close>: the source literal reads "Run request failed: " in English.\<close>

definition msg_invoke_failed_prefix :: string where
  "msg_invoke_failed_prefix = [CHR 0xEC, CHR 0x8B, CHR 0xA4, CHR 0xED, CHR 0x96, CHR 0x89] @ '' '' @ [CHR 0xEC, CHR 0x9A, CHR 0x94, CHR 0xEC, CHR 0xB2, CHR 0xAD] @ '' '' @ [CHR 0xEC, CHR 0x8B, CHR 0xA4, CHR 0xED, CHR 0x8C, CHR 0xA8] @ '': ''"




definition samplePayload :: string where
  "samplePayload = ''{'' @ [CHR 0x0A] @ ''  '' @ [CHR 0x22] @ ''event'' @ [CHR 0x22] @ '': '' @ [CHR 0x22] @ ''ping'' @ [CHR 0x22] @ '','' @ [CHR 0x0A] @ ''  '' @ [CHR 0x22] @ ''payload'' @ [CHR 0x22] @ '': {'' @ [CHR 0x0A] @ ''    '' @ [CHR 0x22] @ ''requestId'' @ [CHR 0x22] @ '': '' @ [CHR 0x22] @ ''job-1234'' @ [CHR 0x22] @ '','' @ [CHR 0x0A] @ ''    '' @ [CHR 0x22] @ ''message'' @ [CHR 0x22] @ '': '' @ [CHR 0x22] @ ''demonstrate 3-panel layout'' @ [CHR 0x22] @ '','' @ [CHR 0x0A] @ ''    '' @ [CHR 0x22] @ ''delayMs'' @ [CHR 0x22] @ '': 1200'' @ [CHR 0x0A] @ ''  }'' @ [CHR 0x0A] @ ''}''"


section \<open>Run status and its normalisation\<close>

datatype RunStatus = Idle | Queued | Processing | Success | Fail

text \<open>The status as it prints inside a template literal.\<close>

fun status_text :: "RunStatus \<Rightarrow> string" where
  "status_text Idle = ''idle''"
| "status_text Queued = ''queued''"
| "status_text Processing = ''processing''"
| "status_text Success = ''success''"
| "status_text Fail = ''fail''"

text \<open>
  \<open>normalizeStatus(status?: string)\<close>: \<open>status?.toLowerCase() ?? ""\<close> followed by the
  chain of \<open>includes\<close> tests, in the order of the source.
\<close>

definition normalizeStatus :: "string option \<Rightarrow> RunStatus" where
  "normalizeStatus status =
     (let normalized = (case status of None \<Rightarrow> [] | Some s \<Rightarrow> toLowerCase s) in
      if str_includes normalized ''queue'' then Queued
      else if str_includes normalized ''process'' \<or> str_includes normalized ''run'' then Processing
      else if str_includes normalized ''success'' \<or> str_includes normalized ''complete''
              \<or> str_includes normalized ''done'' then Success
      else if str_includes normalized ''fail'' \<or> str_includes normalized ''error'' then Fail
      else Processing)"


section \<open>JSON values, responses and thrown values\<close>

datatype json = JNull | JBool bool | JNum int | JStr string | JArr "json list"
  | JObj "(string \<times> json) list"

type_synonym json_object = "(string \<times> json) list"

text \<open>
  \<open>InvokeResponse\<close> of the API module, with the fields the page reads. Every field is
  optional; \<open>result\<close> is typed \<open>Record<string, unknown>\<close>.
\<close>

record InvokeResponse =
  duration_ms :: "int option"
  error_message :: "string option"
  invocation_id :: "int option"
  logged_at :: "string option"
  result :: "json_object option"
  status :: "string option"

text \<open>JavaScript truthiness of an optional string, number and object.\<close>

definition truthy_string :: "string option \<Rightarrow> bool" where
  "truthy_string v = (case v of None \<Rightarrow> False | Some s \<Rightarrow> s \<noteq> [])"

definition truthy_number :: "int option \<Rightarrow> bool" where
  "truthy_number v = (case v of None \<Rightarrow> False | Some n \<Rightarrow> n \<noteq> 0)"

definition truthy_object :: "json_object option \<Rightarrow> bool" where
  "truthy_object v = (case v of None \<Rightarrow> False | Some obj \<Rightarrow> True)"

text \<open>
  A rejected request carries a thrown value. The handlers print
  \<open>error instanceof Error ? error.message : "Unknown error"\<close>.
\<close>

datatype thrown = Error string | NotAnError

fun error_text :: "thrown \<Rightarrow> string" where
  "error_text (Error message) = message"
| "error_text NotAnError = ''Unknown error''"

text \<open>
  \<open>JSON.parse\<close> and \<open>JSON.stringify\<close> belong to the platform, not to the repository;
  the handlers take them as parameters. \<open>JSON_parse\<close> returns \<open>None\<close> where
  \<open>JSON.parse\<close> throws.
\<close>

record builtins =
  JSON_parse :: "string \<Rightarrow> json option"
  JSON_stringify :: "json \<Rightarrow> string"

section \<open>The function store\<close>

datatype Language = Python | Node | Go

record SoftGateFunction =
  fn_id :: int
  fn_name :: string
  fn_language :: Language
  fn_code :: string
  fn_description :: "string option"

text \<open>The store's state; \<open>fn_list\<close> is its \<open>functions\<close> array.\<close>

record store =
  fn_list :: "SoftGateFunction list"
  selectedId :: "int option"




text \<open>\<open>functions.find((fn) => fn.id === selectedId) ?? null\<close> of the page.\<close>

definition selectedFunction :: "store \<Rightarrow> SoftGateFunction option" where
  "selectedFunction st =
     (case selectedId st of None \<Rightarrow> None
      | Some i \<Rightarrow> find (\<lambda>fn. fn_id fn = i) (fn_list st))"

subsection \<open>Saving a draft\<close>





section \<open>The page: state, timers and requests in flight\<close>

text \<open>
  What the interval callback closes over: the id of the function that was run, the
  invocation id of the submit response, and \<open>startedAt\<close>.
\<close>

record poll_env =
  env_function_id :: int
  env_invocation_id :: int
  env_startedAt :: int

text \<open>
  The browser's timer table holds the run-timeout (\<open>setTimeout\<close>) and the polling
  interval (\<open>setInterval\<close>), each with its delay in milliseconds. Both kinds share one
  pool of ids, and \<open>clearInterval\<close> and \<open>clearTimeout\<close> remove an id from that pool.
\<close>

datatype timer = RunTimeout nat | PollInterval nat poll_env

text \<open>A request in flight, with what its continuation closes over.\<close>

datatype request = InvokeRequest int int | StatusRequest poll_env

text \<open>The network calls issued so far: \<open>invokeFunction(id, params)\<close> and
  \<open>getInvocationStatus(id, invocationId)\<close>.\<close>

datatype call = InvokeCall int json | StatusCall int int

datatype Tab = Output | History

record page =
  payload :: string
  jsonError :: "string option"
  isRunning :: bool
  runMessage :: "string option"
  activeTab :: Tab
  runStatus :: RunStatus
  runLogs :: "string list"
  runResult :: string
  runDurationMs :: "int option"
  pollRef :: "nat option"
  pollAttemptsRef :: nat
  runTimeoutRef :: "nat option"
  lastStatusRef :: "RunStatus option"
  stuckCountRef :: nat
  timers :: "(nat \<times> timer) list"
  nextTimerId :: nat
  requests :: "(nat \<times> request) list"
  nextRequestId :: nat
  calls :: "call list"

definition MAX_POLL_ATTEMPTS :: nat where
  "MAX_POLL_ATTEMPTS = 60"

definition MAX_STUCK_ATTEMPTS :: nat where
  "MAX_STUCK_ATTEMPTS = 30"

definition initial_page :: page where
  "initial_page =
     \<lparr> payload = samplePayload, jsonError = None, isRunning = False, runMessage = None,
       activeTab = Output, runStatus = Idle, runLogs = [], runResult = [],
       runDurationMs = None, pollRef = None, pollAttemptsRef = 0, runTimeoutRef = None,
       lastStatusRef = None, stuckCountRef = 0, timers = [], nextTimerId = 1,
       requests = [], nextRequestId = 0, calls = [] \<rparr>"

subsection \<open>Timers and requests\<close>

definition remove_key :: "nat \<Rightarrow> (nat \<times> 'a) list \<Rightarrow> (nat \<times> 'a) list" where
  "remove_key k xs = filter (\<lambda>entry. fst entry \<noteq> k) xs"

definition clearInterval :: "nat \<Rightarrow> page \<Rightarrow> page" where
  "clearInterval k s = s\<lparr>timers := remove_key k (timers s)\<rparr>"

definition clearTimeout :: "nat \<Rightarrow> page \<Rightarrow> page" where
  "clearTimeout k s = s\<lparr>timers := remove_key k (timers s)\<rparr>"

text \<open>\<open>setTimeout\<close> and \<open>setInterval\<close> enter a timer under a fresh id.\<close>

definition add_timer :: "timer \<Rightarrow> page \<Rightarrow> page" where
  "add_timer tm s =
     s\<lparr>timers := (nextTimerId s, tm) # timers s, nextTimerId := Suc (nextTimerId s)\<rparr>"

text \<open>A network call is logged and stays in flight until it settles.\<close>

definition send_request :: "call \<Rightarrow> request \<Rightarrow> page \<Rightarrow> page" where
  "send_request c r s =
     s\<lparr>calls := calls s @ [c], requests := (nextRequestId s, r) # requests s,
       nextRequestId := Suc (nextRequestId s)\<rparr>"

subsection \<open>clearPoll\<close>

definition clearPoll :: "page \<Rightarrow> page" where
  "clearPoll s =
     (let s1 = (case pollRef s of
                  Some i \<Rightarrow> (clearInterval i s)\<lparr>pollRef := None\<rparr>
                | None \<Rightarrow> s);
          s2 = s1\<lparr>pollAttemptsRef := 0, stuckCountRef := 0, lastStatusRef := None\<rparr>
      in case runTimeoutRef s2 of
           Some k \<Rightarrow> (clearTimeout k s2)\<lparr>runTimeoutRef := None\<rparr>
         | None \<Rightarrow> s2)"

subsection \<open>handleRun and its continuations\<close>

text \<open>
  The synchronous part of \<open>handleRun\<close>: the two selection checks, \<open>JSON.parse\<close> inside
  the \<open>try\<close>, the teardown of the previous session, the run-timeout of 60000 ms, and
  the submit call. \<open>selected\<close> is the page's \<open>selectedFunction\<close>, \<open>now\<close> is
  \<open>Date.now()\<close>.
\<close>

definition handleRun :: "builtins \<Rightarrow> SoftGateFunction option \<Rightarrow> int \<Rightarrow> page \<Rightarrow> page" where
  "handleRun B selected now s =
     (case selected of
        None \<Rightarrow> s\<lparr>runMessage := Some msg_select_function\<rparr>
      | Some fn \<Rightarrow>
          if fn_id fn < 0 then s\<lparr>runMessage := Some msg_save_before_run\<rparr>
          else
            (case JSON_parse B (payload s) of
               None \<Rightarrow> s\<lparr>jsonError := Some msg_invalid_json\<rparr>
             | Some parsed \<Rightarrow>
                 (let s1 = s\<lparr>jsonError := None, activeTab := Output, runStatus := Queued,
                             runLogs := [''[Queued] Job accepted''], runResult := [],
                             runDurationMs := None\<rparr>;
                      s2 = clearPoll s1;
                      s3 = s2\<lparr>pollAttemptsRef := 0, stuckCountRef := 0, lastStatusRef := None,
                              isRunning := True, runMessage := Some msg_sending\<rparr>;
                      s4 = (case runTimeoutRef s3 of
                              Some k \<Rightarrow> clearTimeout k s3
                            | None \<Rightarrow> s3);
                      s5 = (add_timer (RunTimeout 60000) s4)\<lparr>runTimeoutRef := Some (nextTimerId s4)\<rparr>
                  in send_request (InvokeCall (fn_id fn) parsed) (InvokeRequest (fn_id fn) now) s5)))"

text \<open>The callback of the run-timeout.\<close>

definition run_timeout_callback :: "page \<Rightarrow> page" where
  "run_timeout_callback s =
     (let s1 = clearPoll s in
      s1\<lparr>isRunning := False, runStatus := Fail, runMessage := Some msg_run_timeout,
         runLogs := runLogs s1 @ [log_run_timeout]\<rparr>)"

text \<open>The branch taken when \<open>!invokeRes.invocation_id\<close> holds.\<close>

definition missing_invocation_id :: "page \<Rightarrow> page" where
  "missing_invocation_id s =
     s\<lparr>runLogs := runLogs s @ [log_missing_invocation_id], runStatus := Fail,
       isRunning := False, runMessage := Some msg_missing_invocation_id\<rparr>"

text \<open>
  The \<open>then\<close> of the submit call, for the function id and \<open>startedAt\<close> it closed
  over. First the response is shown: status, result, duration.
\<close>

definition show_invoke_response :: "builtins \<Rightarrow> InvokeResponse \<Rightarrow> page \<Rightarrow> page" where
  "show_invoke_response B invokeRes s =
     (let s1 = s\<lparr>runStatus := normalizeStatus (status invokeRes)\<rparr>;
          s2 = (case result invokeRes of
                  Some r \<Rightarrow> s1\<lparr>runResult := JSON_stringify B (JObj r)\<rparr>
                | None \<Rightarrow> s1)
      in case duration_ms invokeRes of
           Some d \<Rightarrow> s2\<lparr>runDurationMs := Some d\<rparr>
         | None \<Rightarrow> s2)"

text \<open>Then the invocation id decides: a falsy id ends the run, any other id starts the
  polling interval of 1000 ms and stores its timer id in \<open>pollRef\<close>.\<close>

definition invoke_then :: "builtins \<Rightarrow> int \<Rightarrow> int \<Rightarrow> InvokeResponse \<Rightarrow> page \<Rightarrow> page" where
  "invoke_then B functionId startedAt invokeRes s =
     (let s3 = show_invoke_response B invokeRes s
      in case invocation_id invokeRes of
           None \<Rightarrow> missing_invocation_id s3
         | Some invocationId \<Rightarrow>
             if invocationId = 0 then missing_invocation_id s3
             else
               (let s4 = s3\<lparr>runLogs := runLogs s3 @
                           [''[Invoke] id='' @ show_int invocationId @ '' status='' @
                            (case status invokeRes of Some t \<Rightarrow> t | None \<Rightarrow> ''queued'')]\<rparr>;
                    env = \<lparr> env_function_id = functionId, env_invocation_id = invocationId,
                            env_startedAt = startedAt \<rparr>
                in (add_timer (PollInterval 1000 env) s4)\<lparr>pollRef := Some (nextTimerId s4)\<rparr>))"

text \<open>The \<open>catch\<close> of the submit call.\<close>

definition invoke_catch :: "thrown \<Rightarrow> page \<Rightarrow> page" where
  "invoke_catch error s =
     (let s1 = clearPoll s in
      s1\<lparr>isRunning := False, runStatus := Fail,
         runMessage := Some (msg_invoke_failed_prefix @ error_text error),
         runLogs := runLogs s1 @ [''[Error] '' @ error_text error]\<rparr>)"

text \<open>
  The interval callback up to its \<open>await\<close>: the attempt counter, the attempt cap,
  and the get-status call.
\<close>

definition interval_callback :: "poll_env \<Rightarrow> page \<Rightarrow> page" where
  "interval_callback env s =
     (let s1 = s\<lparr>pollAttemptsRef := pollAttemptsRef s + 1\<rparr> in
      if pollAttemptsRef s1 \<ge> MAX_POLL_ATTEMPTS then
        (let s2 = clearPoll s1 in
         s2\<lparr>isRunning := False, runStatus := Fail, runMessage := Some msg_poll_timeout,
            runLogs := runLogs s2 @ [log_poll_timeout]\<rparr>)
      else
        send_request (StatusCall (env_function_id env) (env_invocation_id env))
          (StatusRequest env) s1)"

text \<open>The status the page derives from a poll response.\<close>

definition polled_status :: "InvokeResponse \<Rightarrow> RunStatus" where
  "polled_status res =
     (let p0 = normalizeStatus (status res);
          p1 = (if p0 = Processing \<and> truthy_object (result res) then Success else p0);
          p2 = (if p1 = Processing \<and> truthy_string (error_message res) then Fail else p1)
      in p2)"

text \<open>
  The interval callback after its \<open>await\<close> has returned \<open>res\<close>, in the three
  blocks of the source. First the response is shown: status, duration, result, and a log
  line when the response carries \<open>logged_at\<close>.
\<close>

definition show_poll_response :: "builtins \<Rightarrow> InvokeResponse \<Rightarrow> RunStatus \<Rightarrow> page \<Rightarrow> page" where
  "show_poll_response B res polledStatus s =
     (let s1 = s\<lparr>runStatus := polledStatus\<rparr>;
          s2 = (case duration_ms res of
                  Some d \<Rightarrow> s1\<lparr>runDurationMs := Some d\<rparr>
                | None \<Rightarrow> s1);
          s3 = (case result res of
                  Some r \<Rightarrow> s2\<lparr>runResult := JSON_stringify B (JObj r)\<rparr>
                | None \<Rightarrow> s2)
      in case logged_at res of
           Some l \<Rightarrow>
             if l \<noteq> [] then s3\<lparr>runLogs := runLogs s3 @
                               [''['' @ status_text polledStatus @ ''] '' @ l]\<rparr>
             else s3
         | None \<Rightarrow> s3)"

text \<open>Then the repeat counter: \<open>polledStatus === lastStatusRef.current\<close> counts one
  more repeat, anything else (also the first poll, where the ref is null) resets it.\<close>

definition count_repeat :: "RunStatus \<Rightarrow> page \<Rightarrow> page" where
  "count_repeat polledStatus s =
     (let s1 = (if Some polledStatus = lastStatusRef s
                then s\<lparr>stuckCountRef := stuckCountRef s + 1\<rparr>
                else s\<lparr>stuckCountRef := 0\<rparr>)
      in s1\<lparr>lastStatusRef := Some polledStatus\<rparr>)"

text \<open>Last the two exits: the stuck guard, and a terminal status.\<close>

definition poll_then :: "builtins \<Rightarrow> poll_env \<Rightarrow> InvokeResponse \<Rightarrow> int \<Rightarrow> page \<Rightarrow> page" where
  "poll_then B env res now s =
     (let polledStatus = polled_status res;
          s4 = show_poll_response B res polledStatus s;
          s6 = count_repeat polledStatus s4
      in if (polledStatus = Processing \<or> polledStatus = Queued)
            \<and> stuckCountRef s6 \<ge> MAX_STUCK_ATTEMPTS then
           (let s7 = clearPoll s6 in
            s7\<lparr>isRunning := False, runStatus := Fail, runMessage := Some msg_stuck,
               runLogs := runLogs s7 @ [log_stuck]\<rparr>)
         else if polledStatus = Success \<or> polledStatus = Fail then
           (let s7 = clearPoll s6;
                s8 = s7\<lparr>isRunning := False,
                        runMessage := Some (if polledStatus = Success then msg_run_done
                                            else (case error_message res of
                                                    Some m \<Rightarrow> m
                                                  | None \<Rightarrow> msg_run_failed))\<rparr>
            in case duration_ms res of
                 None \<Rightarrow> s8\<lparr>runDurationMs := Some (now - env_startedAt env)\<rparr>
               | Some d \<Rightarrow> s8)
         else s6)"

text \<open>The \<open>catch\<close> of the interval callback.\<close>

definition poll_catch :: "thrown \<Rightarrow> page \<Rightarrow> page" where
  "poll_catch error s =
     (let s1 = clearPoll s in
      s1\<lparr>isRunning := False, runStatus := Fail,
         runMessage := Some (msg_poll_failed_prefix @ error_text error),
         runLogs := runLogs s1 @ [''[Error] '' @ error_text error]\<rparr>)"

subsection \<open>The other handlers\<close>

text \<open>The \<open>onClick\<close> of the Reset button.\<close>

definition handleReset :: "page \<Rightarrow> page" where
  "handleReset s =
     clearPoll (s\<lparr>payload := samplePayload, jsonError := None, runMessage := None,
                  runStatus := Idle, runLogs := [], runResult := [], runDurationMs := None,
                  isRunning := False\<rparr>)"

definition handlePayloadChange :: "builtins \<Rightarrow> string option \<Rightarrow> page \<Rightarrow> page" where
  "handlePayloadChange B v s =
     (let next = (case v of Some t \<Rightarrow> t | None \<Rightarrow> []);
          s1 = s\<lparr>payload := next\<rparr>
      in case JSON_parse B next of
           Some parsed \<Rightarrow> s1\<lparr>jsonError := None\<rparr>
         | None \<Rightarrow> s1\<lparr>jsonError := Some msg_invalid_json\<rparr>)"

section \<open>Events\<close>

text \<open>
  A timer fires only while it is in the timer table: a run-timeout leaves the table
  when it fires, an interval stays. A request settles once, with a response or with a
  thrown value, and its continuation runs on the state of that moment.
\<close>

definition fire :: "nat \<Rightarrow> page \<Rightarrow> page" where
  "fire k s =
     (case map_of (timers s) k of
        None \<Rightarrow> s
      | Some (RunTimeout delay) \<Rightarrow> run_timeout_callback (s\<lparr>timers := remove_key k (timers s)\<rparr>)
      | Some (PollInterval delay env) \<Rightarrow> interval_callback env s)"

definition invokeResolve :: "builtins \<Rightarrow> nat \<Rightarrow> InvokeResponse \<Rightarrow> page \<Rightarrow> page" where
  "invokeResolve B rid invokeRes s =
     (case map_of (requests s) rid of
        Some (InvokeRequest functionId startedAt) \<Rightarrow>
          invoke_then B functionId startedAt invokeRes (s\<lparr>requests := remove_key rid (requests s)\<rparr>)
      | Some (StatusRequest env) \<Rightarrow> s
      | None \<Rightarrow> s)"

definition invokeReject :: "nat \<Rightarrow> thrown \<Rightarrow> page \<Rightarrow> page" where
  "invokeReject rid error s =
     (case map_of (requests s) rid of
        Some (InvokeRequest functionId startedAt) \<Rightarrow>
          invoke_catch error (s\<lparr>requests := remove_key rid (requests s)\<rparr>)
      | Some (StatusRequest env) \<Rightarrow> s
      | None \<Rightarrow> s)"

definition pollResolve :: "builtins \<Rightarrow> nat \<Rightarrow> InvokeResponse \<Rightarrow> int \<Rightarrow> page \<Rightarrow> page" where
  "pollResolve B rid res now s =
     (case map_of (requests s) rid of
        Some (StatusRequest env) \<Rightarrow>
          poll_then B env res now (s\<lparr>requests := remove_key rid (requests s)\<rparr>)
      | Some (InvokeRequest functionId startedAt) \<Rightarrow> s
      | None \<Rightarrow> s)"

definition pollReject :: "nat \<Rightarrow> thrown \<Rightarrow> page \<Rightarrow> page" where
  "pollReject rid error s =
     (case map_of (requests s) rid of
        Some (StatusRequest env) \<Rightarrow>
          poll_catch error (s\<lparr>requests := remove_key rid (requests s)\<rparr>)
      | Some (InvokeRequest functionId startedAt) \<Rightarrow> s
      | None \<Rightarrow> s)"

datatype event =
    Run "SoftGateFunction option" int
  | Reset
  | PayloadChange "string option"
  | InvokeOk nat InvokeResponse
  | InvokeErr nat thrown
  | Fire nat
  | PollOk nat InvokeResponse int
  | PollErr nat thrown

fun step :: "builtins \<Rightarrow> event \<Rightarrow> page \<Rightarrow> page" where
  "step B (Run selected now) s = handleRun B selected now s"
| "step B Reset s = handleReset s"
| "step B (PayloadChange v) s = handlePayloadChange B v s"
| "step B (InvokeOk rid res) s = invokeResolve B rid res s"
| "step B (InvokeErr rid error) s = invokeReject rid error s"
| "step B (Fire k) s = fire k s"
| "step B (PollOk rid res now) s = pollResolve B rid res now s"
| "step B (PollErr rid error) s = pollReject rid error s"

fun run :: "builtins \<Rightarrow> event list \<Rightarrow> page \<Rightarrow> page" where
  "run B [] s = s"
| "run B (e # es) s = run B es (step B e s)"

section \<open>Sample data\<close>

text \<open>
  A stand-in for the platform that parses the sample payload and nothing else, the first
  entry of the store's \<open>initialFunctions\<close> (its source text left out), and the
  responses of the specification's end-to-end scenario.
\<close>

definition sample_event :: json where
  "sample_event =
     JObj [(''event'', JStr ''ping''),
           (''payload'', JObj [(''requestId'', JStr ''job-1234''),
                               (''message'', JStr ''demonstrate 3-panel layout''),
                               (''delayMs'', JNum 1200)])]"

definition sample_builtins :: builtins where
  "sample_builtins =
     \<lparr> JSON_parse = (\<lambda>text. if text = samplePayload then Some sample_event else None),
       JSON_stringify = (\<lambda>value. ''{...}'') \<rparr>"

definition sample_function :: SoftGateFunction where
  "sample_function =
     \<lparr> fn_id = 1, fn_name = ''ingest-events'', fn_language = Python, fn_code = [],
       fn_description = None \<rparr>"

definition response_with_status :: "string \<Rightarrow> InvokeResponse" where
  "response_with_status text =
     \<lparr> duration_ms = None, error_message = None, invocation_id = None, logged_at = None,
       result = None, status = Some text \<rparr>"

definition accepted_response :: "int \<Rightarrow> InvokeResponse" where
  "accepted_response invocationId = (response_with_status ''queued'')\<lparr>invocation_id := Some invocationId\<rparr>"

text \<open>The page after one run has been submitted and accepted as invocation 7: the
  run-timeout is timer 1 and the polling interval is timer 2.\<close>

definition polling_page :: page where
  "polling_page =
     run sample_builtins [Run (Some sample_function) 0, InvokeOk 0 (accepted_response 7)] initial_page"

text \<open>The page after the submit alone: request 0 is in flight and timer 1 is the
  run-timeout.\<close>

definition submitted_page :: page where
  "submitted_page = run sample_builtins [Run (Some sample_function) 0] initial_page"

text \<open>Two submits with a Reset click between them, both answered afterwards (with
  invocations 7 and 8); and the same without the Reset.\<close>

definition double_submit :: "event list" where
  "double_submit =
     [Run (Some sample_function) 0, Reset, Run (Some sample_function) 5,
      InvokeOk 0 (accepted_response 7), InvokeOk 1 (accepted_response 8)]"

definition double_submit_direct :: "event list" where
  "double_submit_direct =
     [Run (Some sample_function) 0, Run (Some sample_function) 5,
      InvokeOk 0 (accepted_response 7), InvokeOk 1 (accepted_response 8)]"

section \<open>The Status Normalizer as the specification words it\<close>

text \<open>
  Case-insensitivity is stated on its own, by the table of the twenty-six letters: two
  characters are the same letter when they are equal or one is the capital of the other.
  A keyword is contained case-insensitively when some contiguous part of the raw status
  matches it letter by letter.
\<close>

definition upper_letters :: string where
  "upper_letters = ''ABCDEFGHIJKLMNOPQRSTUVWXYZ''"

definition lower_letters :: string where
  "lower_letters = ''abcdefghijklmnopqrstuvwxyz''"

definition same_letter :: "char \<Rightarrow> char \<Rightarrow> bool" where
  "same_letter c d \<longleftrightarrow>
     c = d \<or> (c, d) \<in> set (zip upper_letters lower_letters)
           \<or> (d, c) \<in> set (zip upper_letters lower_letters)"

definition ci_equal :: "string \<Rightarrow> string \<Rightarrow> bool" where
  "ci_equal a b = list_all2 same_letter a b"

definition contains_ci :: "string \<Rightarrow> string \<Rightarrow> bool" where
  "contains_ci raw kw \<longleftrightarrow> (\<exists>ps w ss. raw = ps @ w @ ss \<and> ci_equal w kw)"

definition normalize_spec :: "string option \<Rightarrow> RunStatus" where
  "normalize_spec rawStatus =
     (let raw = (case rawStatus of None \<Rightarrow> [] | Some r \<Rightarrow> r) in
      if contains_ci raw ''queue'' then Queued
      else if contains_ci raw ''process'' \<or> contains_ci raw ''run'' then Processing
      else if contains_ci raw ''success'' \<or> contains_ci raw ''complete'' \<or> contains_ci raw ''done''
        then Success
      else if contains_ci raw ''fail'' \<or> contains_ci raw ''error'' then Fail
      else Processing)"

section \<open>Polling sessions\<close>




text \<open>What \<open>clearPoll\<close> leaves in the timer table.\<close>

definition cleared_timers :: "page \<Rightarrow> (nat \<times> timer) list" where
  "cleared_timers s =
     filter (\<lambda>entry. Some (fst entry) \<noteq> pollRef s \<and> Some (fst entry) \<noteq> runTimeoutRef s)
       (timers s)"

section \<open>Notions of the specification\<close>

text \<open>
  A response carries a non-empty result when \<open>result\<close> is an object with at least one
  key, and a non-empty error message when \<open>error_message\<close> is a non-empty string.
\<close>

definition carries_result :: "InvokeResponse \<Rightarrow> bool" where
  "carries_result res = (case result res of Some obj \<Rightarrow> obj \<noteq> [] | None \<Rightarrow> False)"

definition carries_error_message :: "InvokeResponse \<Rightarrow> bool" where
  "carries_error_message res = (case error_message res of Some m \<Rightarrow> m \<noteq> [] | None \<Rightarrow> False)"

text \<open>A poll response that says "processing" and carries both a result and an error
  message.\<close>

definition ambiguous_response :: InvokeResponse where
  "ambiguous_response =
     (response_with_status ''processing'')
       \<lparr>error_message := Some ''boom'', result := Some [(''ok'', JBool True)]\<rparr>"

text \<open>The three preconditions of a submit, and when each is unmet.\<close>

datatype precondition = NoSelection | UnsavedDraft | InvalidJson

fun unmet :: "builtins \<Rightarrow> SoftGateFunction option \<Rightarrow> page \<Rightarrow> precondition \<Rightarrow> bool" where
  "unmet B selected s NoSelection = (selected = None)"
| "unmet B selected s UnsavedDraft = (case selected of Some fn \<Rightarrow> fn_id fn < 0 | None \<Rightarrow> False)"
| "unmet B selected s InvalidJson = (JSON_parse B (payload s) = None)"

text \<open>How the page reports an unmet precondition: a run message for the first two, the
  JSON error of the payload editor for the third. Nothing else of the page changes.\<close>

fun report :: "precondition \<Rightarrow> page \<Rightarrow> page" where
  "report NoSelection s = s\<lparr>runMessage := Some msg_select_function\<rparr>"
| "report UnsavedDraft s = s\<lparr>runMessage := Some msg_save_before_run\<rparr>"
| "report InvalidJson s = s\<lparr>jsonError := Some msg_invalid_json\<rparr>"

text \<open>The get-status calls among the network calls issued so far.\<close>

fun is_status_call :: "call \<Rightarrow> bool" where
  "is_status_call (StatusCall functionId invocationId) = True"
| "is_status_call (InvokeCall functionId params) = False"

definition status_calls :: "page \<Rightarrow> call list" where
  "status_calls s = filter is_status_call (calls s)"

fun is_interval :: "timer \<Rightarrow> bool" where
  "is_interval (PollInterval delay env) = True"
| "is_interval (RunTimeout delay) = False"

fun is_invoke_request :: "request \<Rightarrow> bool" where
  "is_invoke_request (InvokeRequest functionId startedAt) = True"
| "is_invoke_request (StatusRequest env) = False"

text \<open>The polling intervals in the timer table.\<close>

definition active_intervals :: "page \<Rightarrow> (nat \<times> timer) list" where
  "active_intervals s = filter (\<lambda>entry. is_interval (snd entry)) (timers s)"

definition active_timeouts :: "page \<Rightarrow> (nat \<times> timer) list" where
  "active_timeouts s = filter (\<lambda>entry. \<not> is_interval (snd entry)) (timers s)"

text \<open>
  A page tracks a single session when every polling interval in the timer table is the
  one \<open>pollRef\<close> holds, and no submit response is outstanding.
\<close>

definition single_session :: "page \<Rightarrow> bool" where
  "single_session s \<longleftrightarrow>
     list_all (\<lambda>entry. pollRef s = Some (fst entry)) (active_intervals s)
     \<and> list_all (\<lambda>entry. \<not> is_invoke_request (snd entry)) (requests s)"

text \<open>A page is quiet when no polling interval is active and no submit response is
  outstanding.\<close>

definition quiet :: "page \<Rightarrow> bool" where
  "quiet s \<longleftrightarrow>
     active_intervals s = [] \<and> list_all (\<lambda>entry. \<not> is_invoke_request (snd entry)) (requests s)"

fun is_run :: "event \<Rightarrow> bool" where
  "is_run (Run selected now) = True"
| "is_run e = False"

text \<open>No polling interval, no get-status call in flight and no get-status call issued so
  far is for invocation 0.\<close>

definition never_zero :: "page \<Rightarrow> bool" where
  "never_zero s \<longleftrightarrow>
     (\<forall>entry \<in> set (timers s). \<forall>delay env.
        snd entry = PollInterval delay env \<longrightarrow> env_invocation_id env \<noteq> 0)
     \<and> (\<forall>entry \<in> set (requests s). \<forall>env.
        snd entry = StatusRequest env \<longrightarrow> env_invocation_id env \<noteq> 0)
     \<and> (\<forall>functionId. StatusCall functionId 0 \<notin> set (calls s))"




chapter \<open>Properties\<close>

section \<open>Status normalisation\<close>

lemma startsWith_iff: "startsWith s k \<longleftrightarrow> (\<exists>ss. s = k @ ss)"
  by (induction s k rule: startsWith.induct) auto

lemma str_includes_iff: "str_includes s k \<longleftrightarrow> (\<exists>ps ss. s = ps @ k @ ss)"
proof (induction s)
  case Nil
  then show ?case by auto
next
  case (Cons c cs)
  show ?case
  proof
    assume "str_includes (c # cs) k"
    then consider "startsWith (c # cs) k" | "str_includes cs k" by auto
    then show "\<exists>ps ss. c # cs = ps @ k @ ss"
    proof cases
      case 1
      then obtain ss where "c # cs = k @ ss" by (auto simp: startsWith_iff)
      then have "c # cs = [] @ k @ ss" by simp
      then show ?thesis by blast
    next
      case 2
      then obtain ps ss where "cs = ps @ k @ ss" using Cons.IH by blast
      then have "c # cs = (c # ps) @ k @ ss" by simp
      then show ?thesis by blast
    qed
  next
    assume "\<exists>ps ss. c # cs = ps @ k @ ss"
    then obtain ps ss where eq: "c # cs = ps @ k @ ss" by blast
    show "str_includes (c # cs) k"
    proof (cases ps)
      case Nil
      with eq have "startsWith (c # cs) k" by (auto simp: startsWith_iff)
      then show ?thesis by simp
    next
      case (Cons p ps')
      with eq have "cs = ps' @ k @ ss" by simp
      then have "str_includes cs k" using Cons.IH by blast
      then show ?thesis by simp
    qed
  qed
qed

text \<open>The lower-casing of the code agrees with the letter table.\<close>

lemma upper_range:
  "c \<in> set upper_letters \<longleftrightarrow> 65 \<le> (of_char c :: nat) \<and> (of_char c :: nat) \<le> 90"
proof
  assume "c \<in> set upper_letters"
  then show "65 \<le> (of_char c :: nat) \<and> (of_char c :: nat) \<le> 90"
    by (auto simp: upper_letters_def)
next
  assume r: "65 \<le> (of_char c :: nat) \<and> (of_char c :: nat) \<le> 90"
  define n where "n = (of_char c :: nat)"
  have c: "c = char_of n" by (simp add: n_def)
  from r have "n \<in> {65..<91}" by (simp add: n_def)
  then have "n \<in> set [65..<91]" by (simp only: set_upt)
  then have "(char_of n :: char) \<in> char_of ` set [65..<91::nat]" by (rule imageI)
  then have "(char_of n :: char) \<in> set (map char_of [65..<91::nat])" by (simp only: set_map)
  also have "map char_of [65..<91::nat] = upper_letters" by code_simp
  finally show "c \<in> set upper_letters" using c by simp
qed

lemma fold_table:
  "toLowerCase_char c = (case map_of (zip upper_letters lower_letters) c of Some l \<Rightarrow> l | None \<Rightarrow> c)"
proof (cases "c \<in> set upper_letters")
  case False
  then have "map_of (zip upper_letters lower_letters) c = None"
    by (simp add: map_of_zip_is_None upper_letters_def lower_letters_def)
  moreover have "toLowerCase_char c = c"
  proof -
    from False have "\<not> (65 \<le> (of_char c :: nat) \<and> (of_char c :: nat) \<le> 90)"
      using upper_range [of c] by blast
    then show ?thesis by (simp only: toLowerCase_char_def Let_def if_False)
  qed
  ultimately show ?thesis by simp
next
  case True
  then have "c \<in> set ''ABCDEFGHIJKLMNOPQRSTUVWXYZ''" by (simp add: upper_letters_def)
  then show ?thesis
    unfolding set_simps insert_iff empty_iff
    by (elim disjE FalseE; hypsubst; code_simp)
qed

lemma letters_distinct: "distinct upper_letters" "length upper_letters = length lower_letters"
  by (simp_all add: upper_letters_def lower_letters_def)

lemma lower_not_upper: "d \<in> set lower_letters \<Longrightarrow> d \<notin> set upper_letters"
  by (auto simp: upper_letters_def lower_letters_def)

lemma fold_letter_iff:
  assumes d: "d \<in> set lower_letters"
  shows "toLowerCase_char c = d \<longleftrightarrow> same_letter c d"
proof
  assume l: "toLowerCase_char c = d"
  show "same_letter c d"
  proof (cases "map_of (zip upper_letters lower_letters) c")
    case None
    with l show ?thesis by (simp add: fold_table same_letter_def)
  next
    case (Some l')
    with l have "l' = d" by (simp add: fold_table)
    with Some have "(c, d) \<in> set (zip upper_letters lower_letters)" by (auto dest: map_of_SomeD)
    then show ?thesis by (simp add: same_letter_def)
  qed
next
  assume "same_letter c d"
  then consider "c = d" | "(c, d) \<in> set (zip upper_letters lower_letters)"
    | "(d, c) \<in> set (zip upper_letters lower_letters)"
    unfolding same_letter_def by blast
  then show "toLowerCase_char c = d"
  proof cases
    case 1
    have "map_of (zip upper_letters lower_letters) d = None"
      using lower_not_upper [OF d] letters_distinct(2) by (simp add: map_of_zip_is_None)
    with 1 show ?thesis by (simp add: fold_table)
  next
    case 2
    have "distinct (map fst (zip upper_letters lower_letters))"
      using letters_distinct by simp
    then have "map_of (zip upper_letters lower_letters) c = Some d"
      using 2 by (rule map_of_is_SomeI)
    then show ?thesis by (simp add: fold_table)
  next
    case 3
    then have "d \<in> set upper_letters" by (rule set_zip_leftD)
    with lower_not_upper [OF d] show ?thesis by simp
  qed
qed

lemma fold_word_iff:
  assumes "set kw \<subseteq> set lower_letters"
  shows "toLowerCase w = kw \<longleftrightarrow> ci_equal w kw"
  using assms
proof (induction w arbitrary: kw)
  case Nil
  then show ?case by (auto simp: toLowerCase_def ci_equal_def)
next
  case (Cons c w)
  show ?case
  proof (cases kw)
    case Nil
    then show ?thesis by (simp add: toLowerCase_def ci_equal_def)
  next
    case (Cons d ds)
    with Cons.prems have d: "d \<in> set lower_letters" and ds: "set ds \<subseteq> set lower_letters" by auto
    from Cons.IH [OF ds] fold_letter_iff [OF d, of c] Cons show ?thesis
      by (simp add: toLowerCase_def ci_equal_def)
  qed
qed

lemma includes_fold_iff:
  assumes kw: "set kw \<subseteq> set lower_letters"
  shows "str_includes (toLowerCase raw) kw \<longleftrightarrow> contains_ci raw kw"
proof
  assume "str_includes (toLowerCase raw) kw"
  then obtain ps ss where "map toLowerCase_char raw = ps @ kw @ ss"
    by (auto simp: str_includes_iff toLowerCase_def)
  then obtain us vs where raw: "raw = us @ vs" and "kw @ ss = map toLowerCase_char vs"
    by (auto simp: map_eq_append_conv)
  then obtain w ts where vs: "vs = w @ ts" and "kw = map toLowerCase_char w"
    by (metis map_eq_append_conv)
  then have "ci_equal w kw"
    using fold_word_iff [OF kw, of w] by (simp add: toLowerCase_def)
  moreover from raw vs have "raw = us @ w @ ts" by simp
  ultimately show "contains_ci raw kw"
    unfolding contains_ci_def by blast
next
  assume "contains_ci raw kw"
  then obtain ps w ss where raw: "raw = ps @ w @ ss" and "ci_equal w kw"
    by (auto simp: contains_ci_def)
  then have "toLowerCase w = kw" using fold_word_iff [OF kw, of w] by simp
  with raw have "toLowerCase raw = toLowerCase ps @ kw @ toLowerCase ss"
    by (auto simp: toLowerCase_def)
  then show "str_includes (toLowerCase raw) kw"
    unfolding str_includes_iff by blast
qed

lemma keywords_lower:
  "set ''queue'' \<subseteq> set lower_letters" "set ''process'' \<subseteq> set lower_letters"
  "set ''run'' \<subseteq> set lower_letters" "set ''success'' \<subseteq> set lower_letters"
  "set ''complete'' \<subseteq> set lower_letters" "set ''done'' \<subseteq> set lower_letters"
  "set ''fail'' \<subseteq> set lower_letters" "set ''error'' \<subseteq> set lower_letters"
  by (simp_all add: lower_letters_def)

lemma contains_ci_empty: "kw \<noteq> [] \<Longrightarrow> \<not> contains_ci [] kw"
  by (auto simp: contains_ci_def ci_equal_def)

lemma upper_examples:
  "normalizeStatus (Some ''QUEUED'') = Queued"
  "normalizeStatus (Some ''Running'') = Processing"
  "normalizeStatus (Some ''COMPLETED'') = Success"
  "normalizeStatus (Some ''Failed'') = Fail"
  "normalizeStatus (Some ''Queue Error'') = Queued"
  "normalizeStatus (Some ''pending'') = Processing"
  by code_simp+

text \<open>
  Claim C8. \<open>normalizeStatus\<close> is a total function of the optional raw status with no
  failing branch. Its value is the one the ordered rule list of the specification gives
  (first the keyword "queue", then "process" or "run", then "success", "complete" or
  "done", then "fail" or "error", and \<open>Processing\<close> when no rule applies, which covers
  an undefined status), where a keyword matches whatever the case of the letters of the
  raw status, and it is always one of the four canonical states, never \<open>Idle\<close>. So
  "QUEUED" is \<open>Queued\<close>, "Running" is \<open>Processing\<close>, "COMPLETED" is \<open>Success\<close>, "Failed" is
  \<open>Fail\<close>, "Queue Error" is \<open>Queued\<close> by the first rule, and "pending" and the undefined
  status are \<open>Processing\<close>.
\<close>

theorem normalizeStatus_first_match_total:
  "normalizeStatus rawStatus = normalize_spec rawStatus
   \<and> normalizeStatus rawStatus \<in> {Queued, Processing, Success, Fail}
   \<and> normalizeStatus (Some ''QUEUED'') = Queued
   \<and> normalizeStatus (Some ''Running'') = Processing
   \<and> normalizeStatus (Some ''COMPLETED'') = Success
   \<and> normalizeStatus (Some ''Failed'') = Fail
   \<and> normalizeStatus (Some ''Queue Error'') = Queued
   \<and> normalizeStatus (Some ''pending'') = Processing
   \<and> normalizeStatus None = Processing"
proof -
  have spec: "normalizeStatus rawStatus = normalize_spec rawStatus"
  proof (cases rawStatus)
    case None
    then show ?thesis
      by (simp add: normalizeStatus_def normalize_spec_def contains_ci_empty)
  next
    case (Some r)
    then show ?thesis
      by (simp add: normalizeStatus_def normalize_spec_def includes_fold_iff [OF keywords_lower(1)]
          includes_fold_iff [OF keywords_lower(2)] includes_fold_iff [OF keywords_lower(3)]
          includes_fold_iff [OF keywords_lower(4)] includes_fold_iff [OF keywords_lower(5)]
          includes_fold_iff [OF keywords_lower(6)] includes_fold_iff [OF keywords_lower(7)]
          includes_fold_iff [OF keywords_lower(8)])
  qed
  have canonical: "normalizeStatus rawStatus \<in> {Queued, Processing, Success, Fail}"
    by (simp add: normalizeStatus_def Let_def)
  have undefined_status: "normalizeStatus None = Processing"
    by (simp add: normalizeStatus_def)
  show ?thesis
    using spec canonical undefined_status upper_examples by simp
qed

section \<open>Frame lemmas of the handlers\<close>

lemma map_of_remove_key:
  "map_of (remove_key k xs) j = (if j = k then None else map_of xs j)"
  by (induction xs) (auto simp: remove_key_def)

lemma set_remove_key: "set (remove_key k xs) = {e \<in> set xs. fst e \<noteq> k}"
  by (auto simp: remove_key_def)

lemma clearPoll_eq:
  "clearPoll s =
     s\<lparr>pollRef := None, pollAttemptsRef := 0, runTimeoutRef := None, lastStatusRef := None,
       stuckCountRef := 0, timers := cleared_timers s\<rparr>"
  by (rule page.equality)
     (auto simp: clearPoll_def clearInterval_def clearTimeout_def cleared_timers_def
        remove_key_def Let_def split: option.splits intro: filter_cong)

lemma map_of_filter_key:
  "map_of (filter (\<lambda>entry. P (fst entry)) xs) k = (if P k then map_of xs k else None)"
  by (induction xs) auto

lemma map_of_cleared_timers:
  "map_of (cleared_timers s) k =
     (if Some k = pollRef s \<or> Some k = runTimeoutRef s then None else map_of (timers s) k)"
  unfolding cleared_timers_def
  using map_of_filter_key [of "\<lambda>i. Some i \<noteq> pollRef s \<and> Some i \<noteq> runTimeoutRef s" "timers s" k]
  by auto

lemma set_cleared_timers:
  "set (cleared_timers s) =
     {e \<in> set (timers s). Some (fst e) \<noteq> pollRef s \<and> Some (fst e) \<noteq> runTimeoutRef s}"
  by (auto simp: cleared_timers_def)

lemma show_poll_response_frame [simp]:
  "payload (show_poll_response B res p s) = payload s"
  "jsonError (show_poll_response B res p s) = jsonError s"
  "isRunning (show_poll_response B res p s) = isRunning s"
  "runMessage (show_poll_response B res p s) = runMessage s"
  "activeTab (show_poll_response B res p s) = activeTab s"
  "pollRef (show_poll_response B res p s) = pollRef s"
  "pollAttemptsRef (show_poll_response B res p s) = pollAttemptsRef s"
  "runTimeoutRef (show_poll_response B res p s) = runTimeoutRef s"
  "lastStatusRef (show_poll_response B res p s) = lastStatusRef s"
  "stuckCountRef (show_poll_response B res p s) = stuckCountRef s"
  "timers (show_poll_response B res p s) = timers s"
  "nextTimerId (show_poll_response B res p s) = nextTimerId s"
  "requests (show_poll_response B res p s) = requests s"
  "nextRequestId (show_poll_response B res p s) = nextRequestId s"
  "calls (show_poll_response B res p s) = calls s"
  "runStatus (show_poll_response B res p s) = p"
  by (simp_all add: show_poll_response_def Let_def split: option.splits)

lemma count_repeat_eq:
  "count_repeat p s =
     s\<lparr>stuckCountRef := (if lastStatusRef s = Some p then Suc (stuckCountRef s) else 0),
       lastStatusRef := Some p\<rparr>"
  by (rule page.equality) (auto simp: count_repeat_def Let_def)




lemma show_invoke_response_frame [simp]:
  "payload (show_invoke_response B res s) = payload s"
  "jsonError (show_invoke_response B res s) = jsonError s"
  "isRunning (show_invoke_response B res s) = isRunning s"
  "runMessage (show_invoke_response B res s) = runMessage s"
  "activeTab (show_invoke_response B res s) = activeTab s"
  "runLogs (show_invoke_response B res s) = runLogs s"
  "pollRef (show_invoke_response B res s) = pollRef s"
  "pollAttemptsRef (show_invoke_response B res s) = pollAttemptsRef s"
  "runTimeoutRef (show_invoke_response B res s) = runTimeoutRef s"
  "lastStatusRef (show_invoke_response B res s) = lastStatusRef s"
  "stuckCountRef (show_invoke_response B res s) = stuckCountRef s"
  "timers (show_invoke_response B res s) = timers s"
  "nextTimerId (show_invoke_response B res s) = nextTimerId s"
  "requests (show_invoke_response B res s) = requests s"
  "nextRequestId (show_invoke_response B res s) = nextRequestId s"
  "calls (show_invoke_response B res s) = calls s"
  "runStatus (show_invoke_response B res s) = normalizeStatus (status res)"
  by (simp_all add: show_invoke_response_def Let_def split: option.splits)

lemma clearPoll_frame [simp]:
  "payload (clearPoll s) = payload s" "jsonError (clearPoll s) = jsonError s"
  "isRunning (clearPoll s) = isRunning s" "runMessage (clearPoll s) = runMessage s"
  "activeTab (clearPoll s) = activeTab s" "runStatus (clearPoll s) = runStatus s"
  "runLogs (clearPoll s) = runLogs s" "runResult (clearPoll s) = runResult s"
  "runDurationMs (clearPoll s) = runDurationMs s" "nextTimerId (clearPoll s) = nextTimerId s"
  "requests (clearPoll s) = requests s" "nextRequestId (clearPoll s) = nextRequestId s"
  "calls (clearPoll s) = calls s"
  "pollRef (clearPoll s) = None" "runTimeoutRef (clearPoll s) = None"
  "pollAttemptsRef (clearPoll s) = 0" "stuckCountRef (clearPoll s) = 0"
  "lastStatusRef (clearPoll s) = None" "timers (clearPoll s) = cleared_timers s"
  by (simp_all add: clearPoll_eq)

lemma poll_then_footprint:
  "requests (poll_then B env res now s) = requests s"
  "calls (poll_then B env res now s) = calls s"
  "nextTimerId (poll_then B env res now s) = nextTimerId s"
  "timers (poll_then B env res now s) = timers s \<and> pollRef (poll_then B env res now s) = pollRef s
   \<or> timers (poll_then B env res now s) = cleared_timers s \<and> pollRef (poll_then B env res now s) = None"
  by (simp_all add: poll_then_def Let_def count_repeat_eq cleared_timers_def split: option.splits)

lemma invoke_then_footprint:
  "requests (invoke_then B f t0 res s) = requests s"
  "calls (invoke_then B f t0 res s) = calls s"
  "(\<not> truthy_number (invocation_id res) \<and> timers (invoke_then B f t0 res s) = timers s
      \<and> pollRef (invoke_then B f t0 res s) = pollRef s
      \<and> nextTimerId (invoke_then B f t0 res s) = nextTimerId s)
   \<or> (\<exists>i. invocation_id res = Some i \<and> i \<noteq> 0
        \<and> timers (invoke_then B f t0 res s) =
            (nextTimerId s, PollInterval 1000 \<lparr> env_function_id = f, env_invocation_id = i, env_startedAt = t0 \<rparr>) # timers s
        \<and> pollRef (invoke_then B f t0 res s) = Some (nextTimerId s)
        \<and> nextTimerId (invoke_then B f t0 res s) = Suc (nextTimerId s))"
  by (simp_all add: invoke_then_def Let_def missing_invocation_id_def add_timer_def truthy_number_def
      split: option.splits)

lemma interval_callback_footprint:
  "timers (interval_callback env s) = timers s \<and> pollRef (interval_callback env s) = pollRef s
     \<and> calls (interval_callback env s) = calls s @ [StatusCall (env_function_id env) (env_invocation_id env)]
     \<and> requests (interval_callback env s) = (nextRequestId s, StatusRequest env) # requests s
   \<or> timers (interval_callback env s) = cleared_timers s \<and> pollRef (interval_callback env s) = None
     \<and> calls (interval_callback env s) = calls s
     \<and> requests (interval_callback env s) = requests s"
  "nextTimerId (interval_callback env s) = nextTimerId s"
  by (simp_all add: interval_callback_def Let_def send_request_def cleared_timers_def)

lemma handleRun_footprint:
  "handleRun B selected now s = s\<lparr>runMessage := runMessage (handleRun B selected now s)\<rparr>
   \<or> handleRun B selected now s = s\<lparr>jsonError := jsonError (handleRun B selected now s)\<rparr>
   \<or> (\<exists>fn parsed. selected = Some fn \<and> \<not> fn_id fn < 0 \<and> JSON_parse B (payload s) = Some parsed
        \<and> timers (handleRun B selected now s) = (nextTimerId s, RunTimeout 60000) # cleared_timers s
        \<and> pollRef (handleRun B selected now s) = None
        \<and> runTimeoutRef (handleRun B selected now s) = Some (nextTimerId s)
        \<and> nextTimerId (handleRun B selected now s) = Suc (nextTimerId s)
        \<and> requests (handleRun B selected now s) = (nextRequestId s, InvokeRequest (fn_id fn) now) # requests s
        \<and> calls (handleRun B selected now s) = calls s @ [InvokeCall (fn_id fn) parsed])"
  by (cases selected)
     (auto simp: handleRun_def Let_def add_timer_def send_request_def cleared_timers_def
       split: option.splits)

text \<open>A quiet page stays quiet, and issues no get-status call, until the next submit.\<close>

lemma quiet_iff:
  "quiet s \<longleftrightarrow> (\<forall>e \<in> set (timers s). \<not> is_interval (snd e))
              \<and> (\<forall>r \<in> set (requests s). \<not> is_invoke_request (snd r))"
  by (auto simp: quiet_def active_intervals_def filter_empty_conv list_all_iff)

lemma set_cleared_timers_subset: "set (cleared_timers s) \<subseteq> set (timers s)"
  by (auto simp: cleared_timers_def)

lemma set_remove_key_subset: "set (remove_key k xs) \<subseteq> set xs"
  by (auto simp: remove_key_def)

lemma cleared_timers_remove_subset:
  "set (cleared_timers (s\<lparr>timers := remove_key k (timers s)\<rparr>)) \<subseteq> set (timers s)"
  by (auto simp: cleared_timers_def remove_key_def)

lemma no_invoke_pending:
  assumes "\<forall>r \<in> set xs. \<not> is_invoke_request (snd r)"
  shows "map_of xs rid \<noteq> Some (InvokeRequest f t0)"
proof
  assume "map_of xs rid = Some (InvokeRequest f t0)"
  then have "(rid, InvokeRequest f t0) \<in> set xs" by (rule map_of_SomeD)
  with assms show False by force
qed

lemma no_interval_active:
  assumes "\<forall>e \<in> set xs. \<not> is_interval (snd e)"
  shows "map_of xs k \<noteq> Some (PollInterval d env)"
proof
  assume "map_of xs k = Some (PollInterval d env)"
  then have "(k, PollInterval d env) \<in> set xs" by (rule map_of_SomeD)
  with assms show False by force
qed

lemma quiet_step:
  assumes q: "quiet s" and e: "\<not> is_run e"
  shows "quiet (step B e s) \<and> status_calls (step B e s) = status_calls s"
proof -
  from q have T: "\<forall>e \<in> set (timers s). \<not> is_interval (snd e)"
    and R: "\<forall>r \<in> set (requests s). \<not> is_invoke_request (snd r)"
    by (simp_all add: quiet_iff)
  show ?thesis
  proof (cases e)
    case (Run selected now)
    with e show ?thesis by simp
  next
    case Reset
    have "set (timers (handleReset s)) \<subseteq> set (timers s)"
      by (auto simp: handleReset_def cleared_timers_def)
    moreover have "requests (handleReset s) = requests s" "calls (handleReset s) = calls s"
      by (simp_all add: handleReset_def)
    ultimately show ?thesis using T R Reset by (auto simp: quiet_iff status_calls_def)
  next
    case (PayloadChange v)
    have "timers (handlePayloadChange B v s) = timers s"
      "requests (handlePayloadChange B v s) = requests s"
      "calls (handlePayloadChange B v s) = calls s"
      by (simp_all add: handlePayloadChange_def Let_def split: option.splits)
    then show ?thesis using T R PayloadChange by (auto simp: quiet_iff status_calls_def)
  next
    case (InvokeOk rid res)
    have "invokeResolve B rid res s = s"
      using no_invoke_pending [OF R, of rid]
      by (auto simp: invokeResolve_def split: option.splits request.splits)
    then show ?thesis using q InvokeOk by simp
  next
    case (InvokeErr rid err)
    have "invokeReject rid err s = s"
      using no_invoke_pending [OF R, of rid]
      by (auto simp: invokeReject_def split: option.splits request.splits)
    then show ?thesis using q InvokeErr by simp
  next
    case (Fire k)
    show ?thesis
    proof (cases "map_of (timers s) k")
      case None
      then show ?thesis using q Fire by (simp add: fire_def)
    next
      case (Some tm)
      then obtain d where tm: "tm = RunTimeout d"
        using no_interval_active [OF T, of k] by (cases tm) auto
      let ?s' = "run_timeout_callback (s\<lparr>timers := remove_key k (timers s)\<rparr>)"
      have eq: "fire k s = ?s'" using Some tm by (simp add: fire_def)
      have "set (timers ?s') \<subseteq> set (timers s)"
        using cleared_timers_remove_subset [of k s] by (simp add: run_timeout_callback_def Let_def)
      moreover have "requests ?s' = requests s" "calls ?s' = calls s"
        by (simp_all add: run_timeout_callback_def Let_def)
      ultimately show ?thesis using T R Fire eq by (auto simp: quiet_iff status_calls_def)
    qed
  next
    case (PollOk rid res now)
    show ?thesis
    proof (cases "\<exists>env. map_of (requests s) rid = Some (StatusRequest env)")
      case False
      then have "pollResolve B rid res now s = s"
        by (auto simp: pollResolve_def split: option.splits request.splits)
      then show ?thesis using q PollOk by simp
    next
      case True
      then obtain env where env: "map_of (requests s) rid = Some (StatusRequest env)" by blast
      let ?m = "s\<lparr>requests := remove_key rid (requests s)\<rparr>"
      let ?s' = "poll_then B env res now ?m"
      have eq: "pollResolve B rid res now s = ?s'" using env by (simp add: pollResolve_def)
      have "set (timers ?s') \<subseteq> set (timers s)"
        using poll_then_footprint(4) [of B env res now ?m] set_cleared_timers_subset [of ?m] by auto
      moreover have "set (requests ?s') \<subseteq> set (requests s)"
        using set_remove_key_subset by (simp add: poll_then_footprint)
      moreover have "calls ?s' = calls s" by (simp add: poll_then_footprint)
      ultimately show ?thesis using T R PollOk eq by (auto simp: quiet_iff status_calls_def)
    qed
  next
    case (PollErr rid err)
    show ?thesis
    proof (cases "\<exists>env. map_of (requests s) rid = Some (StatusRequest env)")
      case False
      then have "pollReject rid err s = s"
        by (auto simp: pollReject_def split: option.splits request.splits)
      then show ?thesis using q PollErr by simp
    next
      case True
      then obtain env where env: "map_of (requests s) rid = Some (StatusRequest env)" by blast
      let ?m = "s\<lparr>requests := remove_key rid (requests s)\<rparr>"
      let ?s' = "poll_catch err ?m"
      have eq: "pollReject rid err s = ?s'" using env by (simp add: pollReject_def)
      have "set (timers ?s') \<subseteq> set (timers s)"
        using set_cleared_timers_subset [of ?m] by (simp add: poll_catch_def Let_def)
      moreover have "set (requests ?s') \<subseteq> set (requests s)"
        using set_remove_key_subset by (simp add: poll_catch_def Let_def)
      moreover have "calls ?s' = calls s" by (simp add: poll_catch_def Let_def)
      ultimately show ?thesis using T R PollErr eq by (auto simp: quiet_iff status_calls_def)
    qed
  qed
qed

lemma quiet_run:
  assumes "quiet s" and "\<forall>e \<in> set es. \<not> is_run e"
  shows "quiet (run B es s) \<and> status_calls (run B es s) = status_calls s"
  using assms
proof (induction es arbitrary: s)
  case Nil
  then show ?case by simp
next
  case (Cons e es)
  then have "quiet (step B e s) \<and> status_calls (step B e s) = status_calls s"
    using quiet_step by simp
  with Cons show ?case by simp
qed

lemma clearPoll_quiet:
  assumes "single_session s"
  shows "quiet (clearPoll s)"
  using assms
  by (auto simp: single_session_def quiet_iff active_intervals_def list_all_iff cleared_timers_def)

text \<open>No step starts polling invocation 0: an interval is only created for a truthy
  invocation id, and a get-status call only for the invocation of an interval.\<close>

lemma never_zero_subset:
  assumes "never_zero s" and "set (timers s') \<subseteq> set (timers s)"
    and "set (requests s') \<subseteq> set (requests s)" and "set (calls s') \<subseteq> set (calls s)"
  shows "never_zero s'"
  using assms unfolding never_zero_def by blast

lemma never_zero_step:
  assumes nz: "never_zero s"
  shows "never_zero (step B e s)"
proof (cases e)
  case (Run selected now)
  have frame: "timers (s\<lparr>runMessage := m\<rparr>) = timers s" "requests (s\<lparr>runMessage := m\<rparr>) = requests s"
      "calls (s\<lparr>runMessage := m\<rparr>) = calls s"
      "timers (s\<lparr>jsonError := m\<rparr>) = timers s" "requests (s\<lparr>jsonError := m\<rparr>) = requests s"
      "calls (s\<lparr>jsonError := m\<rparr>) = calls s" for m by simp_all
  from handleRun_footprint [of B selected now s]
  have "never_zero (handleRun B selected now s)"
  proof (elim disjE exE conjE)
    assume "handleRun B selected now s = s\<lparr>runMessage := runMessage (handleRun B selected now s)\<rparr>"
    with nz frame show ?thesis by (metis never_zero_subset subset_refl)
  next
    assume "handleRun B selected now s = s\<lparr>jsonError := jsonError (handleRun B selected now s)\<rparr>"
    with nz frame show ?thesis by (metis never_zero_subset subset_refl)
  next
    fix fn parsed
    assume "timers (handleRun B selected now s) = (nextTimerId s, RunTimeout 60000) # cleared_timers s"
      "requests (handleRun B selected now s) = (nextRequestId s, InvokeRequest (fn_id fn) now) # requests s"
      "calls (handleRun B selected now s) = calls s @ [InvokeCall (fn_id fn) parsed]"
    with nz set_cleared_timers_subset [of s] show ?thesis
      unfolding never_zero_def by auto
  qed
  with Run show ?thesis by simp
next
  case Reset
  have "set (timers (handleReset s)) \<subseteq> set (timers s)"
    by (auto simp: handleReset_def cleared_timers_def)
  moreover have "requests (handleReset s) = requests s" "calls (handleReset s) = calls s"
    by (simp_all add: handleReset_def)
  ultimately show ?thesis using nz Reset never_zero_subset by simp
next
  case (PayloadChange v)
  have "timers (handlePayloadChange B v s) = timers s"
    "requests (handlePayloadChange B v s) = requests s"
    "calls (handlePayloadChange B v s) = calls s"
    by (simp_all add: handlePayloadChange_def Let_def split: option.splits)
  then show ?thesis using nz PayloadChange never_zero_subset by simp
next
  case (InvokeOk rid res)
  show ?thesis
  proof (cases "\<exists>f t0. map_of (requests s) rid = Some (InvokeRequest f t0)")
    case False
    then have "invokeResolve B rid res s = s"
      by (auto simp: invokeResolve_def split: option.splits request.splits)
    then show ?thesis using nz InvokeOk by simp
  next
    case True
    then obtain f t0 where p: "map_of (requests s) rid = Some (InvokeRequest f t0)" by blast
    let ?m = "s\<lparr>requests := remove_key rid (requests s)\<rparr>"
    let ?s' = "invoke_then B f t0 res ?m"
    have eq: "invokeResolve B rid res s = ?s'" using p by (simp add: invokeResolve_def)
    have m: "never_zero ?m"
      using nz set_remove_key_subset [of rid "requests s"] by (intro never_zero_subset [OF nz]) auto
    have "never_zero ?s'"
      using invoke_then_footprint(3) [of res B f t0 ?m] invoke_then_footprint(1,2) [of B f t0 res ?m] m
      unfolding never_zero_def by auto
    then show ?thesis using InvokeOk eq by simp
  qed
next
  case (InvokeErr rid err)
  show ?thesis
  proof (cases "\<exists>f t0. map_of (requests s) rid = Some (InvokeRequest f t0)")
    case False
    then have "invokeReject rid err s = s"
      by (auto simp: invokeReject_def split: option.splits request.splits)
    then show ?thesis using nz InvokeErr by simp
  next
    case True
    then obtain f t0 where p: "map_of (requests s) rid = Some (InvokeRequest f t0)" by blast
    let ?m = "s\<lparr>requests := remove_key rid (requests s)\<rparr>"
    let ?s' = "invoke_catch err ?m"
    have eq: "invokeReject rid err s = ?s'" using p by (simp add: invokeReject_def)
    have "set (timers ?s') \<subseteq> set (timers s)"
      using set_cleared_timers_subset [of ?m] by (simp add: invoke_catch_def Let_def)
    moreover have "set (requests ?s') \<subseteq> set (requests s)"
      using set_remove_key_subset by (simp add: invoke_catch_def Let_def)
    moreover have "calls ?s' = calls s" by (simp add: invoke_catch_def Let_def)
    ultimately show ?thesis using nz InvokeErr eq never_zero_subset by simp
  qed
next
  case (Fire k)
  show ?thesis
  proof (cases "map_of (timers s) k")
    case None
    then show ?thesis using nz Fire by (simp add: fire_def)
  next
    case (Some tm)
    show ?thesis
    proof (cases tm)
      case (RunTimeout d)
      let ?s' = "run_timeout_callback (s\<lparr>timers := remove_key k (timers s)\<rparr>)"
      have eq: "fire k s = ?s'" using Some RunTimeout by (simp add: fire_def)
      have "set (timers ?s') \<subseteq> set (timers s)"
        using cleared_timers_remove_subset [of k s] by (simp add: run_timeout_callback_def Let_def)
      moreover have "requests ?s' = requests s" "calls ?s' = calls s"
        by (simp_all add: run_timeout_callback_def Let_def)
      ultimately show ?thesis using nz Fire eq never_zero_subset by simp
    next
      case (PollInterval d env)
      have eq: "fire k s = interval_callback env s" using Some PollInterval by (simp add: fire_def)
      have "(k, PollInterval d env) \<in> set (timers s)"
        using Some PollInterval by (auto dest: map_of_SomeD)
      then have env: "env_invocation_id env \<noteq> 0"
        using nz unfolding never_zero_def by force
      have "never_zero (interval_callback env s)"
        using interval_callback_footprint(1) [of env s] nz env set_cleared_timers_subset [of s]
        unfolding never_zero_def by auto
      then show ?thesis using Fire eq by simp
    qed
  qed
next
  case (PollOk rid res now)
  show ?thesis
  proof (cases "\<exists>env. map_of (requests s) rid = Some (StatusRequest env)")
    case False
    then have "pollResolve B rid res now s = s"
      by (auto simp: pollResolve_def split: option.splits request.splits)
    then show ?thesis using nz PollOk by simp
  next
    case True
    then obtain env where env: "map_of (requests s) rid = Some (StatusRequest env)" by blast
    let ?m = "s\<lparr>requests := remove_key rid (requests s)\<rparr>"
    let ?s' = "poll_then B env res now ?m"
    have eq: "pollResolve B rid res now s = ?s'" using env by (simp add: pollResolve_def)
    have "set (timers ?s') \<subseteq> set (timers s)"
      using poll_then_footprint(4) [of B env res now ?m] set_cleared_timers_subset [of ?m] by auto
    moreover have "set (requests ?s') \<subseteq> set (requests s)"
      using set_remove_key_subset by (simp add: poll_then_footprint)
    moreover have "calls ?s' = calls s" by (simp add: poll_then_footprint)
    ultimately show ?thesis using nz PollOk eq never_zero_subset by simp
  qed
next
  case (PollErr rid err)
  show ?thesis
  proof (cases "\<exists>env. map_of (requests s) rid = Some (StatusRequest env)")
    case False
    then have "pollReject rid err s = s"
      by (auto simp: pollReject_def split: option.splits request.splits)
    then show ?thesis using nz PollErr by simp
  next
    case True
    then obtain env where env: "map_of (requests s) rid = Some (StatusRequest env)" by blast
    let ?m = "s\<lparr>requests := remove_key rid (requests s)\<rparr>"
    let ?s' = "poll_catch err ?m"
    have eq: "pollReject rid err s = ?s'" using env by (simp add: pollReject_def)
    have "set (timers ?s') \<subseteq> set (timers s)"
      using set_cleared_timers_subset [of ?m] by (simp add: poll_catch_def Let_def)
    moreover have "set (requests ?s') \<subseteq> set (requests s)"
      using set_remove_key_subset by (simp add: poll_catch_def Let_def)
    moreover have "calls ?s' = calls s" by (simp add: poll_catch_def Let_def)
    ultimately show ?thesis using nz PollErr eq never_zero_subset by simp
  qed
qed

lemma never_zero_run: "never_zero s \<Longrightarrow> never_zero (run B es s)"
  by (induction es arbitrary: s) (simp_all add: never_zero_step)

lemma never_zero_initial: "never_zero initial_page"
  by (simp add: never_zero_def initial_page_def)

section \<open>Evaluating the sample run\<close>

lemmas handler_defs =
  handleRun_def clearPoll_def clearInterval_def clearTimeout_def add_timer_def send_request_def
  remove_key_def run_timeout_callback_def missing_invocation_id_def show_invoke_response_def
  invoke_then_def invoke_catch_def interval_callback_def show_poll_response_def count_repeat_def
  poll_then_def poll_catch_def handleReset_def handlePayloadChange_def fire_def invokeResolve_def
  invokeReject_def pollResolve_def pollReject_def

lemma digit_char_simps:
  "digit_char 0 = CHR ''0''" "digit_char 1 = CHR ''1''" "digit_char 2 = CHR ''2''"
  "digit_char 3 = CHR ''3''" "digit_char 4 = CHR ''4''" "digit_char 5 = CHR ''5''"
  "digit_char 6 = CHR ''6''" "digit_char 7 = CHR ''7''" "digit_char 8 = CHR ''8''"
  "digit_char 9 = CHR ''9''"
  by code_simp+

lemmas eval_defs =
  initial_page_def sample_builtins_def sample_function_def accepted_response_def
  response_with_status_def Let_def normalizeStatus_def polled_status_def toLowerCase_def
  toLowerCase_char_def show_int_def show_nat.simps digit_char_simps truthy_object_def
  truthy_string_def truthy_number_def MAX_POLL_ATTEMPTS_def MAX_STUCK_ATTEMPTS_def

lemma polling_page_eq:
  "polling_page =
     \<lparr> payload = samplePayload, jsonError = None, isRunning = True, runMessage = Some msg_sending,
       activeTab = Output, runStatus = Queued,
       runLogs = [''[Queued] Job accepted'', ''[Invoke] id=7 status=queued''], runResult = [],
       runDurationMs = None, pollRef = Some 2, pollAttemptsRef = 0, runTimeoutRef = Some 1,
       lastStatusRef = None, stuckCountRef = 0,
       timers = [(2, PollInterval 1000 \<lparr> env_function_id = 1, env_invocation_id = 7, env_startedAt = 0 \<rparr>),
                 (1, RunTimeout 60000)],
       nextTimerId = 3, requests = [], nextRequestId = 1,
       calls = [InvokeCall 1 sample_event] \<rparr>"
  by (simp add: polling_page_def handler_defs eval_defs)


lemma polling_page_tick:
  "fire 2 polling_page =
     polling_page\<lparr>pollAttemptsRef := 1, requests := [(1, StatusRequest \<lparr> env_function_id = 1, env_invocation_id = 7, env_startedAt = 0 \<rparr>)],
       nextRequestId := 2, calls := [InvokeCall 1 sample_event, StatusCall 1 7]\<rparr>"
  by (simp add: polling_page_eq handler_defs eval_defs)

lemma single_session_polling_tick: "single_session (fire 2 polling_page)"
  unfolding polling_page_tick
  by (simp add: polling_page_eq single_session_def active_intervals_def)

lemma single_session_polling: "single_session polling_page"
  by (simp add: polling_page_eq single_session_def active_intervals_def)

lemma submitted_page_eq:
  "submitted_page =
     \<lparr> payload = samplePayload, jsonError = None, isRunning = True, runMessage = Some msg_sending,
       activeTab = Output, runStatus = Queued, runLogs = [''[Queued] Job accepted''],
       runResult = [], runDurationMs = None, pollRef = None, pollAttemptsRef = 0,
       runTimeoutRef = Some 1, lastStatusRef = None, stuckCountRef = 0,
       timers = [(1, RunTimeout 60000)], nextTimerId = 2,
       requests = [(0, InvokeRequest 1 0)], nextRequestId = 1,
       calls = [InvokeCall 1 sample_event] \<rparr>"
  by (simp add: submitted_page_def handler_defs eval_defs)

section \<open>Stuck detection\<close>








section \<open>Promotion and demotion of a stale "processing"\<close>

lemma poll_then_terminal:
  assumes "polled_status res = st" and "st = Success \<or> st = Fail"
  shows "runStatus (poll_then B env res now s) = st"
  using assms(2)
proof
  assume "st = Success"
  with assms(1) show ?thesis
    by (simp add: poll_then_def Let_def count_repeat_eq clearPoll_eq split: option.splits)
next
  assume "st = Fail"
  with assms(1) show ?thesis
    by (simp add: poll_then_def Let_def count_repeat_eq clearPoll_eq split: option.splits)
qed

text \<open>
  Claim C2, as the code has it. For a poll response whose raw status normalises to
  \<open>Processing\<close>: when the response carries a result object, empty or not, the page shows
  \<open>Success\<close>; when it carries a non-empty error message and no result, the page shows
  \<open>Fail\<close>. The result is tested first, so a response with both is a success.
\<close>

theorem processing_promotion_demotion:
  assumes pending: "map_of (requests s) rid = Some (StatusRequest env)"
    and processing: "normalizeStatus (status res) = Processing"
  shows "(result res \<noteq> None \<longrightarrow> runStatus (pollResolve B rid res now s) = Success)
       \<and> (carries_error_message res \<and> result res = None \<longrightarrow>
            runStatus (pollResolve B rid res now s) = Fail)"
proof -
  have run: "pollResolve B rid res now s =
               poll_then B env res now (s\<lparr>requests := remove_key rid (requests s)\<rparr>)"
    using pending by (simp add: pollResolve_def)
  have "result res \<noteq> None \<Longrightarrow> polled_status res = Success"
    using processing by (auto simp: polled_status_def truthy_object_def Let_def)
  moreover have "carries_error_message res \<and> result res = None \<Longrightarrow> polled_status res = Fail"
    using processing
    by (auto simp: polled_status_def truthy_object_def truthy_string_def carries_error_message_def
        Let_def split: option.splits)
  ultimately show ?thesis
    unfolding run using poll_then_terminal by blast
qed

text \<open>
  Witness for C2: on the sample page, a "processing" response with a result is shown as
  \<open>Success\<close>, and one with only an error message as \<open>Fail\<close>.
\<close>

theorem processing_promotion_demotion_witness:
  "runStatus (pollResolve sample_builtins 1 ambiguous_response 5 (fire 2 polling_page)) = Success
   \<and> runStatus (pollResolve sample_builtins 1
        ((response_with_status ''processing'')\<lparr>error_message := Some ''boom''\<rparr>) 5
        (fire 2 polling_page)) = Fail"
proof -
  let ?env = "\<lparr> env_function_id = 1, env_invocation_id = 7, env_startedAt = 0 \<rparr>"
  let ?failed = "(response_with_status ''processing'')\<lparr>error_message := Some ''boom''\<rparr>"
  have pending: "map_of (requests (fire 2 polling_page)) 1 = Some (StatusRequest ?env)"
    by (simp add: polling_page_tick)
  have p1: "normalizeStatus (status ambiguous_response) = Processing"
    by (simp add: eval_defs ambiguous_response_def)
  have p2: "normalizeStatus (status ?failed) = Processing"
    by (simp add: eval_defs)
  have r1: "result ambiguous_response \<noteq> None"
    by (simp add: ambiguous_response_def response_with_status_def)
  have r2: "carries_error_message ?failed \<and> result ?failed = None"
    by (simp add: carries_error_message_def response_with_status_def)
  from processing_promotion_demotion [OF pending p1, of sample_builtins 5]
       processing_promotion_demotion [OF pending p2, of sample_builtins 5] r1 r2
  show ?thesis by simp
qed

text \<open>
  The claim as worded asks for \<open>Fail\<close> whenever a "processing" response carries a
  non-empty error message. The response below carries a non-empty result as well, and
  the page shows \<open>Success\<close>.
\<close>

theorem processing_both_counterexample:
  "normalizeStatus (status ambiguous_response) = Processing
   \<and> carries_result ambiguous_response \<and> carries_error_message ambiguous_response
   \<and> runStatus (run sample_builtins [Fire 2, PollOk 1 ambiguous_response 5] polling_page) = Success"
  by (simp add: polling_page_eq handler_defs eval_defs ambiguous_response_def carries_result_def
      carries_error_message_def)

section \<open>Preconditions of a submit\<close>

text \<open>
  Claim C7. When a precondition of the submit is unmet (no function selected, the selected
  function has a negative id, or the payload does not parse), \<open>handleRun\<close> only reports:
  the page afterwards is the page before with the report of an unmet precondition and
  no other change. In particular no network call is issued, no request is in flight that
  was not before, no timer is touched, and the run status, logs, result, duration and
  refs are as they were. The reports of the two selection failures differ, and the
  payload failure is reported in a field of its own.
\<close>

theorem handleRun_precondition_failure:
  assumes "unmet B selected s p"
  shows "(\<exists>q. unmet B selected s q \<and> handleRun B selected now s = report q s)
       \<and> calls (handleRun B selected now s) = calls s
       \<and> requests (handleRun B selected now s) = requests s
       \<and> timers (handleRun B selected now s) = timers s
       \<and> runStatus (handleRun B selected now s) = runStatus s
       \<and> runLogs (handleRun B selected now s) = runLogs s
       \<and> runResult (handleRun B selected now s) = runResult s
       \<and> runDurationMs (handleRun B selected now s) = runDurationMs s
       \<and> isRunning (handleRun B selected now s) = isRunning s
       \<and> pollRef (handleRun B selected now s) = pollRef s
       \<and> runTimeoutRef (handleRun B selected now s) = runTimeoutRef s
       \<and> msg_select_function \<noteq> msg_save_before_run"
proof -
  consider (none) "selected = None"
    | (draft) fn where "selected = Some fn" "fn_id fn < 0"
    | (json) fn where "selected = Some fn" "\<not> fn_id fn < 0" "JSON_parse B (payload s) = None"
    using assms by (cases p; cases selected) auto
  then show ?thesis
  proof cases
    case none
    then have "unmet B selected s NoSelection \<and> handleRun B selected now s = report NoSelection s"
      by (simp add: handleRun_def)
    then show ?thesis
      by (auto simp del: unmet.simps simp: msg_select_function_def msg_save_before_run_def)
  next
    case draft
    then have "unmet B selected s UnsavedDraft \<and> handleRun B selected now s = report UnsavedDraft s"
      by (simp add: handleRun_def)
    then show ?thesis
      by (auto simp del: unmet.simps simp: msg_select_function_def msg_save_before_run_def)
  next
    case json
    then have "unmet B selected s InvalidJson \<and> handleRun B selected now s = report InvalidJson s"
      by (simp add: handleRun_def)
    then show ?thesis
      by (auto simp del: unmet.simps simp: msg_select_function_def msg_save_before_run_def)
  qed
qed

text \<open>
  Witness for C7: submitting a draft with id -1 on the initial page only sets the run
  message, and the call log stays empty.
\<close>

theorem handleRun_precondition_failure_witness:
  "handleRun sample_builtins (Some (sample_function\<lparr>fn_id := - 1\<rparr>)) 0 initial_page
     = initial_page\<lparr>runMessage := Some msg_save_before_run\<rparr>
   \<and> calls (handleRun sample_builtins (Some (sample_function\<lparr>fn_id := - 1\<rparr>)) 0 initial_page) = []"
proof -
  let ?draft = "Some (sample_function\<lparr>fn_id := - 1\<rparr>)"
  have draft: "unmet sample_builtins ?draft initial_page UnsavedDraft"
    by (simp add: sample_function_def)
  have only: "unmet sample_builtins ?draft initial_page q \<Longrightarrow> q = UnsavedDraft" for q
    by (cases q) (simp_all add: sample_function_def sample_builtins_def initial_page_def)
  from handleRun_precondition_failure [OF draft, of 0]
  obtain q where "unmet sample_builtins ?draft initial_page q"
    and "handleRun sample_builtins ?draft 0 initial_page = report q initial_page"
    and "calls (handleRun sample_builtins ?draft 0 initial_page) = calls initial_page"
    by blast
  with only [of q] show ?thesis by (simp add: initial_page_def)
qed

section \<open>A failing poll and the run-timeout\<close>

text \<open>
  What the \<open>catch\<close> of a tick reaches. When a get-status call in flight fails with the
  thrown value \<open>err\<close>, the status is \<open>Fail\<close>, the run message and the last log line
  carry the text of \<open>err\<close>, and \<open>clearPoll\<close> has removed the interval held in \<open>pollRef\<close>
  and the run-timeout. Only on a page that tracks a single session does this leave no
  polling interval, and then no get-status call is issued up to the next submit.
\<close>

lemma poll_failure_single_session:
  fixes B :: builtins and err :: thrown
  assumes pending: "map_of (requests s) rid = Some (StatusRequest env)"
  defines "s' \<equiv> pollReject rid err s"
  shows "runStatus s' = Fail
       \<and> runMessage s' = Some (msg_poll_failed_prefix @ error_text err)
       \<and> runLogs s' = runLogs s @ [''[Error] '' @ error_text err]
       \<and> \<not> isRunning s' \<and> pollRef s' = None \<and> runTimeoutRef s' = None
       \<and> (\<forall>t. pollRef s = Some t \<longrightarrow> map_of (timers s') t = None)
       \<and> (\<forall>k. runTimeoutRef s = Some k \<longrightarrow> map_of (timers s') k = None)
       \<and> status_calls s' = status_calls s
       \<and> (single_session s \<longrightarrow>
            active_intervals s' = []
            \<and> (\<forall>es. (\<forall>e \<in> set es. \<not> is_run e) \<longrightarrow>
                  active_intervals (run B es s') = []
                  \<and> status_calls (run B es s') = status_calls s'))"
proof -
  let ?m = "s\<lparr>requests := remove_key rid (requests s)\<rparr>"
  have eq: "s' = poll_catch err ?m"
    using pending by (simp add: s'_def pollReject_def)
  have eq2: "s' = (clearPoll ?m)\<lparr>isRunning := False, runStatus := Fail,
         runMessage := Some (msg_poll_failed_prefix @ error_text err),
         runLogs := runLogs s @ [''[Error] '' @ error_text err]\<rparr>"
    by (simp add: eq poll_catch_def Let_def)
  have quiet_after: "quiet s'" if "single_session s"
  proof -
    have "single_session ?m"
      using that by (auto simp: single_session_def active_intervals_def list_all_iff remove_key_def)
    then have "quiet (clearPoll ?m)" by (rule clearPoll_quiet)
    then show ?thesis by (simp add: eq2 quiet_iff)
  qed
  have later: "active_intervals s' = []
            \<and> (\<forall>es. (\<forall>e \<in> set es. \<not> is_run e) \<longrightarrow>
                  active_intervals (run B es s') = []
                  \<and> status_calls (run B es s') = status_calls s')" if "single_session s"
    using quiet_after [OF that] quiet_run [of s' _ B] by (auto simp: quiet_def)
  show ?thesis
    using later by (simp add: eq2 map_of_cleared_timers status_calls_def)
qed

text \<open>
  What the run-timeout reaches. A submit that passes its preconditions arms the
  run-timeout of 60000 ms and keeps its id in \<open>runTimeoutRef\<close>. When an armed run-timeout
  fires, the status is \<open>Fail\<close> with the timeout message and log line, and \<open>clearPoll\<close> has
  removed the interval held in \<open>pollRef\<close>. Only on a page that tracks a single session
  does this leave no polling interval.
\<close>

lemma run_timeout_single_session:
  fixes B :: builtins
  shows "(\<forall>fn parsed. selected = Some fn \<and> \<not> fn_id fn < 0 \<and> JSON_parse B (payload s) = Some parsed \<longrightarrow>
            runTimeoutRef (handleRun B selected now s) = Some (nextTimerId s)
          \<and> map_of (timers (handleRun B selected now s)) (nextTimerId s) = Some (RunTimeout 60000)
          \<and> isRunning (handleRun B selected now s))
       \<and> (\<forall>delay. map_of (timers s) k = Some (RunTimeout delay) \<longrightarrow>
            runStatus (fire k s) = Fail \<and> runMessage (fire k s) = Some msg_run_timeout
          \<and> runLogs (fire k s) = runLogs s @ [log_run_timeout]
          \<and> \<not> isRunning (fire k s) \<and> pollRef (fire k s) = None \<and> runTimeoutRef (fire k s) = None
          \<and> map_of (timers (fire k s)) k = None
          \<and> (\<forall>t. pollRef s = Some t \<longrightarrow> map_of (timers (fire k s)) t = None)
          \<and> status_calls (fire k s) = status_calls s
          \<and> (single_session s \<longrightarrow>
                active_intervals (fire k s) = []
                \<and> (\<forall>es. (\<forall>e \<in> set es. \<not> is_run e) \<longrightarrow>
                      active_intervals (run B es (fire k s)) = []
                      \<and> status_calls (run B es (fire k s)) = status_calls (fire k s))))"
proof (intro conjI allI impI)
  fix fn parsed
  assume ok: "selected = Some fn \<and> \<not> fn_id fn < 0 \<and> JSON_parse B (payload s) = Some parsed"
  then show "runTimeoutRef (handleRun B selected now s) = Some (nextTimerId s)"
    and "map_of (timers (handleRun B selected now s)) (nextTimerId s) = Some (RunTimeout 60000)"
    and "isRunning (handleRun B selected now s)"
    by (simp_all add: handleRun_def Let_def add_timer_def send_request_def)
next
  fix delay
  assume armed: "map_of (timers s) k = Some (RunTimeout delay)"
  let ?m = "s\<lparr>timers := remove_key k (timers s)\<rparr>"
  have eq: "fire k s = (clearPoll ?m)\<lparr>isRunning := False, runStatus := Fail,
         runMessage := Some msg_run_timeout, runLogs := runLogs s @ [log_run_timeout]\<rparr>"
    using armed by (simp add: fire_def run_timeout_callback_def Let_def)
  show "runStatus (fire k s) = Fail" "runMessage (fire k s) = Some msg_run_timeout"
    "runLogs (fire k s) = runLogs s @ [log_run_timeout]"
    "\<not> isRunning (fire k s)" "pollRef (fire k s) = None" "runTimeoutRef (fire k s) = None"
    "status_calls (fire k s) = status_calls s"
    by (simp_all add: eq status_calls_def)
  show "map_of (timers (fire k s)) k = None"
    by (simp add: eq map_of_cleared_timers map_of_remove_key)
  show "map_of (timers (fire k s)) t = None" if "pollRef s = Some t" for t
    using that by (simp add: eq map_of_cleared_timers)
  have quiet_after: "quiet (fire k s)" if "single_session s"
  proof -
    have "single_session ?m"
      using that by (auto simp: single_session_def active_intervals_def list_all_iff remove_key_def)
    then have "quiet (clearPoll ?m)" by (rule clearPoll_quiet)
    then show ?thesis by (simp add: eq quiet_iff)
  qed
  show "active_intervals (fire k s) = []" if "single_session s"
    using quiet_after [OF that] by (simp add: quiet_def)
  show "active_intervals (run B es (fire k s)) = []"
    and "status_calls (run B es (fire k s)) = status_calls (fire k s)"
    if "single_session s" "\<forall>e \<in> set es. \<not> is_run e" for es
    using quiet_after [OF that(1)] quiet_run [of "fire k s" es B] that(2)
    by (auto simp: quiet_def)
qed

text \<open>
  Claim C5, evaluated on the sample run with two submits in succession (the defect of
  claim C1): timer 3 is the interval of the superseded run and \<open>pollRef\<close> holds timer 4.
  Timer 3 ticks and its get-status call (request 2) fails. The \<open>catch\<close> ends the run as
  \<open>Fail\<close> with the error text, but its \<open>clearPoll\<close> removes timer 4, not the interval
  whose poll failed: timer 3 stays active, and its next tick issues a second get-status
  call for invocation 7.
\<close>

theorem orphan_poll_failure_keeps_polling:
  "runStatus (run sample_builtins (double_submit @ [Fire 3, PollErr 2 (Error ''network down'')])
      initial_page) = Fail
   \<and> runMessage (run sample_builtins (double_submit @ [Fire 3, PollErr 2 (Error ''network down'')])
      initial_page) = Some (msg_poll_failed_prefix @ ''network down'')
   \<and> pollRef (run sample_builtins (double_submit @ [Fire 3, PollErr 2 (Error ''network down'')])
      initial_page) = None
   \<and> active_intervals (run sample_builtins (double_submit @ [Fire 3, PollErr 2 (Error ''network down'')])
      initial_page)
     = [(3, PollInterval 1000 \<lparr> env_function_id = 1, env_invocation_id = 7, env_startedAt = 0 \<rparr>)]
   \<and> status_calls (run sample_builtins
        (double_submit @ [Fire 3, PollErr 2 (Error ''network down''), Fire 3]) initial_page)
     = [StatusCall 1 7, StatusCall 1 7]"
  by (simp add: double_submit_def handler_defs eval_defs active_intervals_def status_calls_def)

text \<open>
  Claim C6, evaluated on the sample runs. After two submits in succession (the defect of
  claim C1) the run-timeout (timer 2) fires: the run is \<open>Fail\<close> with the timeout message
  and \<open>pollRef\<close> is cleared, but timer 3 stays active and goes on issuing get-status calls
  for invocation 7. And on the page with a single session, a get-status call is in flight
  when the run-timeout (timer 1) fires: the run is \<open>Fail\<close> and no timer is left, but the
  answer that arrives afterwards is applied without a check that its session is still the
  active one, and the status shown becomes \<open>Processing\<close> or \<open>Success\<close>.
\<close>

theorem run_timeout_does_not_end_polling:
  "runStatus (run sample_builtins (double_submit @ [Fire 2]) initial_page) = Fail
   \<and> runMessage (run sample_builtins (double_submit @ [Fire 2]) initial_page) = Some msg_run_timeout
   \<and> pollRef (run sample_builtins (double_submit @ [Fire 2]) initial_page) = None
   \<and> active_intervals (run sample_builtins (double_submit @ [Fire 2]) initial_page)
     = [(3, PollInterval 1000 \<lparr> env_function_id = 1, env_invocation_id = 7, env_startedAt = 0 \<rparr>)]
   \<and> status_calls (run sample_builtins (double_submit @ [Fire 2, Fire 3, Fire 3]) initial_page)
     = [StatusCall 1 7, StatusCall 1 7]
   \<and> runStatus (run sample_builtins [Fire 2, Fire 1] polling_page) = Fail
   \<and> timers (run sample_builtins [Fire 2, Fire 1] polling_page) = []
   \<and> runStatus (run sample_builtins
        [Fire 2, Fire 1, PollOk 1 (response_with_status ''processing'') 5] polling_page) = Processing
   \<and> runStatus (run sample_builtins
        [Fire 2, Fire 1, PollOk 1 (response_with_status ''success'') 5] polling_page) = Success"
  by (simp add: double_submit_def polling_page_eq handler_defs eval_defs active_intervals_def
      status_calls_def)

section \<open>A submit response without an invocation id\<close>

text \<open>
  Claim C10. The presence test of the invocation id is JavaScript truthiness, so a submit
  response with \<open>invocation_id\<close> 0 is handled as one without the field: the page after
  the response is the same in both cases. The run ends as \<open>Fail\<close> with the
  missing-invocation-id message and log line, no interval is started and no call is
  issued. Invocation 0 is never polled: whatever events happen from the initial page on,
  no get-status call for invocation 0 is in the call log.
\<close>

theorem zero_invocation_id_is_absent:
  fixes B :: builtins
  assumes pending: "map_of (requests s) rid = Some (InvokeRequest functionId startedAt)"
    and zero: "invocation_id res = Some 0"
  defines "s' \<equiv> invokeResolve B rid res s"
  shows "s' = invokeResolve B rid (res\<lparr>invocation_id := None\<rparr>) s
       \<and> runStatus s' = Fail \<and> runMessage s' = Some msg_missing_invocation_id
       \<and> runLogs s' = runLogs s @ [log_missing_invocation_id]
       \<and> \<not> isRunning s'
       \<and> timers s' = timers s \<and> pollRef s' = pollRef s \<and> calls s' = calls s
       \<and> (\<forall>es f. StatusCall f 0 \<notin> set (calls (run B es initial_page)))"
proof -
  let ?m = "s\<lparr>requests := remove_key rid (requests s)\<rparr>"
  have eq: "s' = missing_invocation_id (show_invoke_response B res ?m)"
    using pending zero by (simp add: s'_def invokeResolve_def invoke_then_def Let_def)
  have same: "show_invoke_response B (res\<lparr>invocation_id := None\<rparr>) ?m = show_invoke_response B res ?m"
    by (simp add: show_invoke_response_def)
  have absent: "invokeResolve B rid (res\<lparr>invocation_id := None\<rparr>) s
                 = missing_invocation_id (show_invoke_response B res ?m)"
    using pending by (simp add: invokeResolve_def invoke_then_def Let_def same)
  have never: "StatusCall f 0 \<notin> set (calls (run B es initial_page))" for es f
    using never_zero_run [OF never_zero_initial, of B es] by (simp add: never_zero_def)
  show ?thesis
    using never by (simp add: eq absent missing_invocation_id_def)
qed

text \<open>
  Witness for C10: the submit of the sample page is answered with invocation id 0.
\<close>

theorem zero_invocation_id_is_absent_witness:
  "runStatus (invokeResolve sample_builtins 0 (accepted_response 0) submitted_page) = Fail
   \<and> runMessage (invokeResolve sample_builtins 0 (accepted_response 0) submitted_page)
       = Some msg_missing_invocation_id
   \<and> calls (invokeResolve sample_builtins 0 (accepted_response 0) submitted_page)
       = [InvokeCall 1 sample_event]
   \<and> timers (invokeResolve sample_builtins 0 (accepted_response 0) submitted_page)
       = [(1, RunTimeout 60000)]"
proof -
  have pending: "map_of (requests submitted_page) 0 = Some (InvokeRequest 1 0)"
    by (simp add: submitted_page_eq)
  have zero: "invocation_id (accepted_response 0) = Some 0"
    by (simp add: accepted_response_def)
  have before: "calls submitted_page = [InvokeCall 1 sample_event]"
    "timers submitted_page = [(1, RunTimeout 60000)]"
    by (simp_all add: submitted_page_eq)
  from zero_invocation_id_is_absent [OF pending zero, of sample_builtins, THEN conjunct2] before
  show ?thesis by simp
qed

text \<open>
  Claim C4, evaluated on the sample run: the submit is answered by a response that has
  only a status. The run ends as \<open>Fail\<close> with the missing-invocation-id message and no
  get-status call is ever issued, but this branch returns without \<open>clearPoll\<close>, so the
  run-timeout (timer 1) stays armed. When it fires, the run message becomes the timeout
  message and a timeout line is added to the logs: the final message no longer names the
  missing invocation id. The \<open>catch\<close> of the submit call, by contrast, calls
  \<open>clearPoll\<close> and leaves no timer.
\<close>

theorem missing_invocation_id_then_timeout:
  "runStatus (run sample_builtins [InvokeOk 0 (response_with_status ''queued'')] submitted_page) = Fail
   \<and> runMessage (run sample_builtins [InvokeOk 0 (response_with_status ''queued'')] submitted_page)
       = Some msg_missing_invocation_id
   \<and> timers (run sample_builtins [InvokeOk 0 (response_with_status ''queued'')] submitted_page)
       = [(1, RunTimeout 60000)]
   \<and> runStatus (run sample_builtins [InvokeOk 0 (response_with_status ''queued''), Fire 1] submitted_page) = Fail
   \<and> runMessage (run sample_builtins [InvokeOk 0 (response_with_status ''queued''), Fire 1] submitted_page)
       = Some msg_run_timeout
   \<and> runLogs (run sample_builtins [InvokeOk 0 (response_with_status ''queued''), Fire 1] submitted_page)
       = [''[Queued] Job accepted'', log_missing_invocation_id, log_run_timeout]
   \<and> status_calls (run sample_builtins [InvokeOk 0 (response_with_status ''queued''), Fire 1] submitted_page) = []
   \<and> msg_run_timeout \<noteq> msg_missing_invocation_id
   \<and> timers (run sample_builtins [InvokeErr 0 (Error ''refused'')] submitted_page) = []"
proof -
  have differ: "msg_run_timeout \<noteq> msg_missing_invocation_id"
    by (simp add: msg_run_timeout_def msg_missing_invocation_id_def)
  show ?thesis
    using differ
    by (simp add: submitted_page_eq handler_defs eval_defs status_calls_def)
qed

section \<open>Two submits in succession\<close>

text \<open>
  What the teardown at the start of a run reaches: \<open>handleRun\<close> removes the interval
  held in \<open>pollRef\<close> and the run-timeout held in \<open>runTimeoutRef\<close> and arms the new
  run-timeout; it starts no interval itself. When every active interval is the one in
  \<open>pollRef\<close>, none is left.
\<close>

lemma handleRun_tears_down_registered_session:
  assumes "selected = Some fn" and "\<not> fn_id fn < 0" and "JSON_parse B (payload s) = Some parsed"
  shows "active_intervals (handleRun B selected now s) =
           filter (\<lambda>entry. Some (fst entry) \<noteq> pollRef s \<and> Some (fst entry) \<noteq> runTimeoutRef s)
             (active_intervals s)"
    and "active_timeouts (handleRun B selected now s) =
           (nextTimerId s, RunTimeout 60000) #
           filter (\<lambda>entry. Some (fst entry) \<noteq> pollRef s \<and> Some (fst entry) \<noteq> runTimeoutRef s)
             (active_timeouts s)"
    and "list_all (\<lambda>entry. pollRef s = Some (fst entry)) (active_intervals s) \<Longrightarrow>
           active_intervals (handleRun B selected now s) = []"
proof -
  have tm: "timers (handleRun B selected now s) = (nextTimerId s, RunTimeout 60000) # cleared_timers s"
    using handleRun_footprint [of B selected now s] assms
    by (auto simp: handleRun_def Let_def add_timer_def send_request_def cleared_timers_def)
  show a: "active_intervals (handleRun B selected now s) =
           filter (\<lambda>entry. Some (fst entry) \<noteq> pollRef s \<and> Some (fst entry) \<noteq> runTimeoutRef s)
             (active_intervals s)"
    by (simp add: active_intervals_def tm cleared_timers_def conj_commute)
  show "active_timeouts (handleRun B selected now s) =
           (nextTimerId s, RunTimeout 60000) #
           filter (\<lambda>entry. Some (fst entry) \<noteq> pollRef s \<and> Some (fst entry) \<noteq> runTimeoutRef s)
             (active_timeouts s)"
    by (simp add: active_timeouts_def tm cleared_timers_def conj_commute)
  show "active_intervals (handleRun B selected now s) = []"
    if "list_all (\<lambda>entry. pollRef s = Some (fst entry)) (active_intervals s)"
    using that unfolding a by (auto simp: filter_empty_conv list_all_iff)
qed

text \<open>
  Claim C1, evaluated on the sample run: the Run button is pressed, Reset is pressed while
  the submit is unanswered, and Run is pressed again; then both submit responses arrive.
  \<open>handleRun\<close> and Reset call \<open>clearPoll\<close>, but the interval of a run is only created
  when its response arrives, and the \<open>then\<close> of the first submit does not check that its
  run was superseded. Each response starts an interval and the second overwrites
  \<open>pollRef\<close>: two polling intervals are active, \<open>clearPoll\<close> can only remove timer 4, and
  timer 3 keeps polling invocation 7, also after the run-timeout (timer 2) has torn the
  session down. The same happens when \<open>handleRun\<close> is called twice with no Reset between.
\<close>

theorem double_submit_orphans_interval:
  "active_intervals (run sample_builtins double_submit initial_page)
     = [(4, PollInterval 1000 \<lparr> env_function_id = 1, env_invocation_id = 8, env_startedAt = 5 \<rparr>),
        (3, PollInterval 1000 \<lparr> env_function_id = 1, env_invocation_id = 7, env_startedAt = 0 \<rparr>)]
   \<and> pollRef (run sample_builtins double_submit initial_page) = Some 4
   \<and> active_intervals (clearPoll (run sample_builtins double_submit initial_page))
     = [(3, PollInterval 1000 \<lparr> env_function_id = 1, env_invocation_id = 7, env_startedAt = 0 \<rparr>)]
   \<and> status_calls (run sample_builtins (double_submit @ [Fire 2, Fire 3]) initial_page)
     = [StatusCall 1 7]
   \<and> length (active_intervals (run sample_builtins double_submit_direct initial_page)) = 2"
  by (simp add: double_submit_def double_submit_direct_def handler_defs eval_defs
      active_intervals_def status_calls_def)

section \<open>Saving a draft\<close>





lemma selectedFunction_member:
  assumes "selectedFunction st = Some fn"
  shows "fn \<in> set (fn_list st)" "selectedId st = Some (fn_id fn)"
  using assms
  by (auto simp: selectedFunction_def find_Some_iff split: option.splits)




end
